theory Spec2Isabelle
  imports Main "HOL-Library.Sublist"
begin

section \<open>Strings, numbers and values of the host language\<close>

text \<open>
  The program is TypeScript. A string is a sequence of code units; it is modelled as a
  \<^typ>\<open>string\<close>, so a code unit is a \<^typ>\<open>char\<close> (the code units 0 to 255; a text with a
  code unit above 255 is outside the model). All character tests of the source (white
  space, quotes, word characters, letters of keywords) are tests on ASCII code units and
  the no-break space. Limits and ports are whole numbers, modelled as \<^typ>\<open>int\<close>; an absent
  (\<^verbatim>\<open>undefined\<close> or \<^verbatim>\<open>null\<close>) argument is \<^term>\<open>None\<close>.
\<close>

subsection \<open>Character classes\<close>

text \<open>
  White space as \<^verbatim>\<open>\s\<close> and \<^verbatim>\<open>trim()\<close> see it: tab, line feed, vertical tab, form feed,
  carriage return, space and the no-break space (0xA0).
\<close>

definition isSpace :: "char \<Rightarrow> bool" where
  "isSpace c = (c \<in> set [CHR 0x09, CHR 0x0A, CHR 0x0B, CHR 0x0C, CHR 0x0D, CHR 0x20, CHR 0xA0])"

text \<open>
  Line terminators: what \<^verbatim>\<open>.\<close> does not match in a regular expression. The language
  has four: line feed, carriage return, U+2028 and U+2029. The last two are code units
  above 255, so a text of the model cannot hold them; the properties of the sanitizer
  below are stated without any hypothesis about line terminators.
\<close>

definition isLineTerminator :: "char \<Rightarrow> bool" where
  "isLineTerminator c = (c = CHR 0x0A \<or> c = CHR 0x0D)"

definition isDigit :: "char \<Rightarrow> bool" where
  "isDigit c = (let n = (of_char c :: nat) in 48 \<le> n \<and> n \<le> 57)"

definition isLetter :: "char \<Rightarrow> bool" where
  "isLetter c = (let n = (of_char c :: nat) in (65 \<le> n \<and> n \<le> 90) \<or> (97 \<le> n \<and> n \<le> 122))"

definition isUpperLetter :: "char \<Rightarrow> bool" where
  "isUpperLetter c = (let n = (of_char c :: nat) in 65 \<le> n \<and> n \<le> 90)"

text \<open>Word characters, \<^verbatim>\<open>\w\<close>: the class that decides a word boundary \<^verbatim>\<open>\b\<close>.\<close>

definition isWordChar :: "char \<Rightarrow> bool" where
  "isWordChar c = (isLetter c \<or> isDigit c \<or> c = CHR ''_'')"

text \<open>
  Case folding of a regular expression with the flag \<^verbatim>\<open>i\<close>: two code units match when
  their upper-case forms agree, and a code unit outside ASCII never folds onto an ASCII one.
\<close>

definition upperAscii :: "char \<Rightarrow> char" where
  "upperAscii c =
     (let n = (of_char c :: nat) in if 97 \<le> n \<and> n \<le> 122 then char_of (n - 32) else c)"

text \<open>
  \<^verbatim>\<open>String.prototype.toUpperCase\<close> on the code units 0 to 255: the ASCII and Latin-1 small
  letters move down by 32, the sharp s (0xDF) becomes \<^verbatim>\<open>SS\<close>. The two code units whose
  upper-case form lies above 255 (0xB5 and 0xFF) are kept as they are; their images are
  no ASCII letters, so no comparison with an ASCII keyword can tell the difference.
\<close>

definition upperUnits :: "char \<Rightarrow> string" where
  "upperUnits c =
     (let n = (of_char c :: nat) in
      if n = 223 then ''SS''
      else if (97 \<le> n \<and> n \<le> 122) \<or> (224 \<le> n \<and> n \<le> 254 \<and> n \<noteq> 247) then [char_of (n - 32)]
      else [c])"

definition toUpperCase :: "string \<Rightarrow> string" where
  "toUpperCase s = concat (map upperUnits s)"

definition trim :: "string \<Rightarrow> string" where
  "trim s = rev (dropWhile isSpace (rev (dropWhile isSpace s)))"

text \<open>
  A literal of a pattern matched at the start of a text, ignoring case; the result is the
  text after it.
\<close>

fun stripPrefixCI :: "string \<Rightarrow> string \<Rightarrow> string option" where
  "stripPrefixCI [] s = Some s"
| "stripPrefixCI (p # ps) [] = None"
| "stripPrefixCI (p # ps) (c # cs) =
     (if upperAscii p = upperAscii c then stripPrefixCI ps cs else None)"

text \<open>
  A search for a pattern that starts with \<^verbatim>\<open>\b\<close> followed by a word character: the
  pattern is tried at every position whose preceding character is no word character (or
  that is the start of the text). The flag says whether the preceding character is a word
  character.
\<close>

fun scanAtBoundary :: "(string \<Rightarrow> bool) \<Rightarrow> bool \<Rightarrow> string \<Rightarrow> bool" where
  "scanAtBoundary m prevWord [] = False"
| "scanAtBoundary m prevWord (c # cs) =
     ((\<not> prevWord \<and> m (c # cs)) \<or> scanAtBoundary m (isWordChar c) cs)"

subsection \<open>Numbers and cells\<close>

text \<open>Decimal printing of a number inside a template literal (\<^verbatim>\<open>`${limit}`\<close>).\<close>

definition digitChar :: "nat \<Rightarrow> char" where
  "digitChar d = ''0123456789'' ! (d mod 10)"

fun natToString :: "nat \<Rightarrow> string" where
  "natToString n = (if n < 10 then [digitChar n] else natToString (n div 10) @ [digitChar n])"

declare natToString.simps [simp del]

definition numberToString :: "int \<Rightarrow> string" where
  "numberToString i = (if i < 0 then CHR ''-'' # natToString (nat (- i)) else natToString (nat i))"

text \<open>
  A cell of a result row (\<^verbatim>\<open>unknown\<close> in the source): text, a number, a boolean,
  \<^verbatim>\<open>null\<close> or binary data.
\<close>

datatype js_value =
    JString string
  | JNumber int
  | JBoolean bool
  | JNull
  | JBinary "nat list"

section \<open>Operation-level limits\<close>

text \<open>
  Modelled from the spec: the constant table \<^verbatim>\<open>LIMITS\<close> of \<^verbatim>\<open>types.ts\<close>, which is not
  among the sources. The spec gives its values: preview calls default to 10 rows and cap
  at 100, free-form calls default to 1000 rows and cap at 5000, the timeout is 30 seconds
  and text is truncated beyond 200 characters.
\<close>

definition PREVIEW_DEFAULT :: int where "PREVIEW_DEFAULT = 10"
definition PREVIEW_MAX :: int where "PREVIEW_MAX = 100"
definition QUERY_DEFAULT :: int where "QUERY_DEFAULT = 1000"
definition QUERY_MAX :: int where "QUERY_MAX = 5000"
definition TIMEOUT_MS :: int where "TIMEOUT_MS = 30000"
definition TEXT_TRUNCATE :: nat where "TEXT_TRUNCATE = 200"

text \<open>\<^verbatim>\<open>enforceQueryLimit\<close> of the run-query tool.\<close>

definition enforceQueryLimit :: "int option \<Rightarrow> int" where
  "enforceQueryLimit requestedLimit =
     (case requestedLimit of
        None \<Rightarrow> QUERY_DEFAULT
      | Some l \<Rightarrow>
          if l < 1 then QUERY_DEFAULT
          else if l > QUERY_MAX then QUERY_MAX
          else l)"

text \<open>\<^verbatim>\<open>enforceRowLimit\<close> of the preview-data tool.\<close>

definition enforceRowLimit :: "int option \<Rightarrow> int" where
  "enforceRowLimit requestedLimit =
     (case requestedLimit of
        None \<Rightarrow> PREVIEW_DEFAULT
      | Some l \<Rightarrow>
          if l < 1 then PREVIEW_DEFAULT
          else if l > PREVIEW_MAX then PREVIEW_MAX
          else l)"

section \<open>Text truncation\<close>

text \<open>\<^verbatim>\<open>truncateText\<close>: only a string longer than the threshold is changed.\<close>

definition truncateText :: "js_value \<Rightarrow> js_value" where
  "truncateText v =
     (case v of
        JString s \<Rightarrow>
          if length s > TEXT_TRUNCATE then JString (take TEXT_TRUNCATE s @ ''...'')
          else JString s
      | _ \<Rightarrow> v)"

section \<open>The credential sanitizer\<close>

definition REDACTED :: string where
  "REDACTED = ''[REDACTED]''"

definition isQuote :: "char \<Rightarrow> bool" where
  "isQuote c = (c = CHR 0x27 \<or> c = CHR 0x22)"

text \<open>The class \<^verbatim>\<open>[^'"\s]\<close>: any code unit but a quote or white space.\<close>

definition isValueChar :: "char \<Rightarrow> bool" where
  "isValueChar c = (\<not> isQuote c \<and> \<not> isSpace c)"

definition skipQuote :: "string \<Rightarrow> string" where
  "skipQuote s = (case s of [] \<Rightarrow> [] | q # t \<Rightarrow> if isQuote q then t else q # t)"

text \<open>
  One match of a pattern \<^verbatim>\<open>/key[=:]\s*['"]?[^'"\s]+['"]?/gi\<close> at the start of a text; the
  result is the text after the match. The engine is greedy and backtracks, but here no
  shorter choice can succeed where the longest fails: after fewer white space the next
  code unit is white space, which neither the optional quote nor the value accepts; a
  quote that is skipped instead of taken cannot start the value; and nothing follows the
  value but an optional quote. So the match is the keyword, a separator, all the white
  space, a quote if there is one, the longest value (at least one code unit) and a quote
  if there is one.
\<close>

definition matchKeyValue :: "string \<Rightarrow> string \<Rightarrow> string option" where
  "matchKeyValue kw s =
     (case stripPrefixCI kw s of
        None \<Rightarrow> None
      | Some r \<Rightarrow>
          (case r of
             [] \<Rightarrow> None
           | d # r1 \<Rightarrow>
               if d = CHR ''='' \<or> d = CHR '':'' then
                 (let r3 = skipQuote (dropWhile isSpace r1) in
                  if takeWhile isValueChar r3 = [] then None
                  else Some (skipQuote (dropWhile isValueChar r3)))
               else None))"

text \<open>The class \<^verbatim>\<open>[a-zA-Z0-9.-]\<close> of a host name.\<close>

definition isHostChar :: "char \<Rightarrow> bool" where
  "isHostChar c = (isLetter c \<or> isDigit c \<or> c = CHR ''.'' \<or> c = CHR ''-'')"

text \<open>
  The tail \<^verbatim>\<open>.+@[a-zA-Z0-9.-]+\<close> of the connection-URL pattern, on the text after the
  colon. \<^verbatim>\<open>.+\<close> is greedy and stays on one line, so the longer choices are tried first:
  the match ends at the last \<^verbatim>\<open>@\<close> of the line that has at least one code unit before it
  and a host character after it, and takes the host characters that follow. The flag says
  whether \<^verbatim>\<open>.+\<close> has consumed a code unit already.
\<close>

fun urlTail :: "bool \<Rightarrow> string \<Rightarrow> string option" where
  "urlTail started [] = None"
| "urlTail started (c # cs) =
     (if isLineTerminator c then None
      else (case urlTail True cs of
              Some r \<Rightarrow> Some r
            | None \<Rightarrow>
                (case cs of
                   [] \<Rightarrow> None
                 | h # t \<Rightarrow>
                     if started \<and> c = CHR ''@'' \<and> isHostChar h
                     then Some (dropWhile isHostChar cs) else None)))"

text \<open>
  One match of \<^verbatim>\<open>/mysql:\/\/[^:]+:.+@[a-zA-Z0-9.-]+/gi\<close> at the start of a text.
  \<^verbatim>\<open>[^:]+\<close> must be followed by a colon, so it is the whole run of code units up to the
  first colon (line terminators included), and it is not empty.
\<close>

definition matchUrl :: "string \<Rightarrow> string option" where
  "matchUrl s =
     (case stripPrefixCI ''mysql://'' s of
        None \<Rightarrow> None
      | Some r \<Rightarrow>
          if takeWhile (\<lambda>c. c \<noteq> CHR '':'') r = [] then None
          else (case dropWhile (\<lambda>c. c \<noteq> CHR '':'') r of
                  [] \<Rightarrow> None
                | colon # r2 \<Rightarrow> urlTail False r2))"

text \<open>
  \<^verbatim>\<open>String.prototype.replace\<close> with a global pattern and the fixed marker: the text is
  read from the left; where the pattern matches, the marker is written and reading goes on
  after the match, otherwise the code unit is copied. A matcher gives the text after its
  match; the patterns of this module never match the empty text, so the test that the
  match consumed something holds for each of them (\<open>letterMatcher_key\<close>,
  \<open>letterMatcher_url\<close> below).
\<close>

fun replaceAll :: "(string \<Rightarrow> string option) \<Rightarrow> string \<Rightarrow> string" where
  "replaceAll m [] = []"
| "replaceAll m (c # cs) =
     (case m (c # cs) of
        None \<Rightarrow> c # replaceAll m cs
      | Some r \<Rightarrow>
          if length r < length (c # cs) then REDACTED @ replaceAll m r
          else c # replaceAll m cs)"

declare replaceAll.simps(2) [simp del]

text \<open>\<^verbatim>\<open>SENSITIVE_PATTERNS\<close>, in the order of the source.\<close>

definition SENSITIVE_PATTERNS :: "(string \<Rightarrow> string option) list" where
  "SENSITIVE_PATTERNS =
     [matchKeyValue ''password'', matchKeyValue ''pwd'', matchKeyValue ''secret'',
      matchKeyValue ''token'', matchKeyValue ''key'', matchUrl]"

text \<open>\<^verbatim>\<open>sanitizeMessage\<close>: the loop over the patterns, each applied to the result so far.\<close>

definition sanitizeMessage :: "string \<Rightarrow> string" where
  "sanitizeMessage message = foldl (\<lambda>sanitized pattern. replaceAll pattern sanitized) message SENSITIVE_PATTERNS"

text \<open>
  The keywords of the five key-value patterns, and the part of \<open>sanitizeMessage\<close> that
  applies these five (the loop before it reaches the connection-URL pattern).
\<close>

definition KEYWORDS :: "string list" where
  "KEYWORDS = [''password'', ''pwd'', ''secret'', ''token'', ''key'']"

definition keyValueStage :: "string \<Rightarrow> string" where
  "keyValueStage message =
     foldl (\<lambda>sanitized kw. replaceAll (matchKeyValue kw) sanitized) message KEYWORDS"

text \<open>A keyword made of letters only, as all five are.\<close>

definition lettersOnly :: "string \<Rightarrow> bool" where
  "lettersOnly kw \<longleftrightarrow> kw \<noteq> [] \<and> list_all isLetter kw"

text \<open>The number of places where a literal occurs in a text, ignoring case.\<close>

fun countCI :: "string \<Rightarrow> string \<Rightarrow> nat" where
  "countCI pat [] = (if stripPrefixCI pat [] = None then 0 else 1)"
| "countCI pat (c # cs) = (if stripPrefixCI pat (c # cs) = None then 0 else 1) + countCI pat cs"

text \<open>
  What the proofs below use of a pattern: a match consumes at least one code unit and
  starts with a letter. All six patterns do (\<open>letterMatcher_key\<close>, \<open>letterMatcher_url\<close>).
\<close>

definition letterMatcher :: "(string \<Rightarrow> string option) \<Rightarrow> bool" where
  "letterMatcher m \<longleftrightarrow>
     (\<forall>s r. m s = Some r \<longrightarrow> suffix r s \<and> length r < length s \<and> isLetter (hd s))"

section \<open>Connection failures\<close>

datatype DatabaseType = crm | operation

definition databaseName :: "DatabaseType \<Rightarrow> string" where
  "databaseName d = (case d of crm \<Rightarrow> ''crm'' | operation \<Rightarrow> ''operation'')"

record DatabaseConfig =
  cfg_name :: string
  cfg_host :: string
  cfg_port :: int
  cfg_user :: string
  cfg_password :: string
  cfg_database :: string

text \<open>\<^verbatim>\<open>createConnectionErrorMessage\<close>; the second argument is the driver error's message.\<close>

definition createConnectionErrorMessage :: "DatabaseConfig \<Rightarrow> string \<Rightarrow> string" where
  "createConnectionErrorMessage config errorMessage =
     (let safeDetails = cfg_name config @ ''@'' @ cfg_host config @ '':'' @
                        numberToString (cfg_port config) @ ''/'' @ cfg_database config;
          sanitizedError = sanitizeMessage errorMessage
      in ''Database connection failed: '' @ safeDetails @ '' - '' @ sanitizedError)"


section \<open>The query validator\<close>

text \<open>
  Modelled from the spec: the module \<^verbatim>\<open>query-validator.ts\<close> (\<^verbatim>\<open>validate\<close>, its keyword
  lists and its result type) is not among the sources; only its callers and its tests
  are. The definitions of this section follow section 4.1 of the spec: normalise (strip
  leading and trailing white space and leading comments), take the leading keyword, and
  scan the whole normalised text for a forbidden keyword as a whole word, ignoring case.
  The spec fixes one rejection reason, "only read-only statements are allowed"; the reason
  given for a forbidden keyword names the keyword.

  In one place the model follows the repository's tests instead of the spec's words: the
  tests of the module (\<^verbatim>\<open>src/unnamed/part_001\<close>) expect \<^verbatim>\<open>SHOW CREATE TABLE orders\<close> to be
  accepted with the kind SHOW, although CREATE is a forbidden keyword and stands there as
  a whole word. The rule behind this is not visible in the sources. The model makes the
  least exception that admits the statements \<^verbatim>\<open>SHOW CREATE ...\<close>: in a text that begins with
  the word SHOW, white space and the word CREATE, the scan starts after that CREATE.
\<close>

datatype statement_kind = SELECT | SHOW | DESCRIBE | EXPLAIN

definition kindName :: "statement_kind \<Rightarrow> string" where
  "kindName k =
     (case k of SELECT \<Rightarrow> ''SELECT'' | SHOW \<Rightarrow> ''SHOW'' | DESCRIBE \<Rightarrow> ''DESCRIBE''
      | EXPLAIN \<Rightarrow> ''EXPLAIN'')"

definition ALLOWED_STATEMENTS :: "statement_kind list" where
  "ALLOWED_STATEMENTS = [SELECT, SHOW, DESCRIBE, EXPLAIN]"

definition FORBIDDEN_KEYWORDS :: "string list" where
  "FORBIDDEN_KEYWORDS =
     [''INSERT'', ''UPDATE'', ''DELETE'', ''DROP'', ''ALTER'', ''TRUNCATE'', ''CREATE'',
      ''REPLACE'', ''GRANT'', ''REVOKE'', ''LOCK'', ''UNLOCK'']"

record ValidationResult =
  valid :: bool
  queryType :: "statement_kind option"
  error :: "string option"

text \<open>The text after the first \<^verbatim>\<open>*/\<close>, if there is one.\<close>

fun afterBlockEnd :: "string \<Rightarrow> string option" where
  "afterBlockEnd [] = None"
| "afterBlockEnd [c] = None"
| "afterBlockEnd (c # d # cs) =
     (if c = CHR ''*'' \<and> d = CHR ''/'' then Some cs else afterBlockEnd (d # cs))"

lemma afterBlockEnd_shorter: "afterBlockEnd s = Some r \<Longrightarrow> length r < length s"
  by (induction s arbitrary: r rule: afterBlockEnd.induct) (auto split: if_splits)

text \<open>
  Leading comments: after white space, a line comment \<^verbatim>\<open>--\<close> runs to the end of its
  line and a block comment to its \<^verbatim>\<open>*/\<close>; what follows is stripped in the same way. A
  block comment that is never closed is no comment and stays.
\<close>

function stripLeadingComments :: "string \<Rightarrow> string" where
  "stripLeadingComments s =
     (let t = dropWhile isSpace s in
      if prefix ''--'' t then stripLeadingComments (dropWhile (\<lambda>c. \<not> isLineTerminator c) (drop 2 t))
      else if prefix ''/*'' t then
        (case afterBlockEnd (drop 2 t) of
           Some r \<Rightarrow> stripLeadingComments r
         | None \<Rightarrow> t)
      else t)"
  by pat_completeness auto
termination
proof (relation "measure length", goal_cases)
  case 1
  show ?case by simp
next
  case (2 s t)
  have "length (dropWhile (\<lambda>c. \<not> isLineTerminator c) (drop 2 t)) \<le> length (drop 2 t)"
    by (rule length_dropWhile_le)
  moreover have "length t \<le> length s"
    using 2(1) by (simp add: length_dropWhile_le)
  moreover have "2 \<le> length t"
    using 2(2) by (auto simp: prefix_def)
  ultimately show ?case by simp
next
  case (3 s t r)
  have "length r < length (drop 2 t)"
    using 3(4) by (rule afterBlockEnd_shorter)
  moreover have "length t \<le> length s"
    using 3(1) by (simp add: length_dropWhile_le)
  ultimately show ?case by simp
qed

declare stripLeadingComments.simps [simp del]

definition normalizeQuery :: "string \<Rightarrow> string" where
  "normalizeQuery query = stripLeadingComments (trim query)"

text \<open>The leading keyword: the first run of word characters, in upper case.\<close>

definition leadingKeyword :: "string \<Rightarrow> string" where
  "leadingKeyword t = map upperAscii (takeWhile isWordChar t)"

definition statementKind :: "string \<Rightarrow> statement_kind option" where
  "statementKind t = find (\<lambda>k. kindName k = leadingKeyword t) ALLOWED_STATEMENTS"

text \<open>
  A keyword as a whole word at the start of a text (\<^verbatim>\<open>KEYWORD\b\<close>, ignoring case), and
  anywhere in a text (\<^verbatim>\<open>\bKEYWORD\b\<close>).
\<close>

definition wordAt :: "string \<Rightarrow> string \<Rightarrow> bool" where
  "wordAt kw s =
     (case stripPrefixCI kw s of
        None \<Rightarrow> False
      | Some r \<Rightarrow> (case r of [] \<Rightarrow> True | c # cs \<Rightarrow> \<not> isWordChar c))"

definition containsWord :: "string \<Rightarrow> string \<Rightarrow> bool" where
  "containsWord kw t = scanAtBoundary (wordAt kw) False t"

text \<open>
  The exception for \<^verbatim>\<open>SHOW CREATE\<close>: the text after the words SHOW and CREATE, when the text
  begins with them, and the text that is scanned for forbidden keywords.
\<close>

definition afterShowCreate :: "string \<Rightarrow> string option" where
  "afterShowCreate t =
     (case stripPrefixCI ''SHOW'' t of
        None \<Rightarrow> None
      | Some r \<Rightarrow>
          (case r of
             [] \<Rightarrow> None
           | c # cs \<Rightarrow>
               if isSpace c \<and> wordAt ''CREATE'' (dropWhile isSpace cs)
               then stripPrefixCI ''CREATE'' (dropWhile isSpace cs)
               else None))"

definition scannedText :: "string \<Rightarrow> string" where
  "scannedText t = (case afterShowCreate t of None \<Rightarrow> t | Some r \<Rightarrow> r)"

definition validate :: "string \<Rightarrow> ValidationResult" where
  "validate query =
     (let t = normalizeQuery query in
      case statementKind t of
        None \<Rightarrow>
          \<lparr>valid = False, queryType = None,
           error = Some ''only read-only statements are allowed''\<rparr>
      | Some k \<Rightarrow>
          (case find (\<lambda>kw. containsWord kw (scannedText t)) FORBIDDEN_KEYWORDS of
             Some kw \<Rightarrow>
               \<lparr>valid = False, queryType = None,
                error = Some (''forbidden keyword: '' @ kw)\<rparr>
           | None \<Rightarrow> \<lparr>valid = True, queryType = Some k, error = None\<rparr>))"

subsection \<open>The words of the claim about the validator\<close>










section \<open>The connection manager\<close>

subsection \<open>Row limits in the query text\<close>

text \<open>The test \<^verbatim>\<open>/\bLIMIT\s+\d+/i\<close>: the pattern at the start of a text, and anywhere in it.\<close>

definition limitAt :: "string \<Rightarrow> bool" where
  "limitAt s =
     (case stripPrefixCI ''LIMIT'' s of
        None \<Rightarrow> False
      | Some r \<Rightarrow>
          (case r of
             [] \<Rightarrow> False
           | c # cs \<Rightarrow>
               isSpace c \<and> (case dropWhile isSpace cs of [] \<Rightarrow> False | d # ds \<Rightarrow> isDigit d)))"

definition hasLimitClause :: "string \<Rightarrow> bool" where
  "hasLimitClause query = scanAtBoundary limitAt False query"

text \<open>\<^verbatim>\<open>addLimitToQuery\<close>.\<close>

definition addLimitToQuery :: "string \<Rightarrow> int \<Rightarrow> string" where
  "addLimitToQuery query limit =
     (let normalizedQuery = toUpperCase (trim query) in
      if hasLimitClause query then query
      else if prefix ''SHOW'' normalizedQuery \<or> prefix ''DESCRIBE'' normalizedQuery \<or>
              prefix ''EXPLAIN'' normalizedQuery then query
      else trim query @ '' LIMIT '' @ numberToString limit)"


subsection \<open>Results and the driver\<close>

type_synonym row = "(string \<times> js_value) list"

record FieldPacket =
  fp_name :: string
  fp_type :: "nat option"

record FieldInfo =
  fi_name :: string
  fi_type :: string

record QueryResult =
  rows :: "row list"
  resultFields :: "FieldInfo list"
  rowCount :: nat
  truncated :: bool

text \<open>
  What the driver does with one statement: it answers with rows and field packets, it
  fails with an error message, or it has not answered when the timer of 30 seconds fires.
  A pool is modelled by its answers to \<^verbatim>\<open>pool.execute(sql, params)\<close>; the contents of the
  database do not change during a call.
\<close>

datatype driver_reply =
    Answer "row list" "FieldPacket list"
  | DriverError string
  | NoAnswerInTime

type_synonym pool = "string \<Rightarrow> js_value list \<Rightarrow> driver_reply"

text \<open>
  The manager: its two maps, and the statements it has passed to a pool so far (the only
  way it touches a pool when it runs a query).
\<close>

record ConnectionManager =
  pools :: "DatabaseType \<rightharpoonup> pool"
  configs :: "DatabaseType \<rightharpoonup> DatabaseConfig"
  executed :: "(DatabaseType \<times> string) list"

text \<open>\<^verbatim>\<open>getFieldTypeName\<close>: the table of type codes; a missing code counts as 253.\<close>

definition typeMap :: "(nat \<times> string) list" where
  "typeMap =
     [(0, ''DECIMAL''), (1, ''TINYINT''), (2, ''SMALLINT''), (3, ''INT''), (4, ''FLOAT''),
      (5, ''DOUBLE''), (6, ''NULL''), (7, ''TIMESTAMP''), (8, ''BIGINT''), (9, ''MEDIUMINT''),
      (10, ''DATE''), (11, ''TIME''), (12, ''DATETIME''), (13, ''YEAR''), (14, ''NEWDATE''),
      (15, ''VARCHAR''), (16, ''BIT''), (245, ''JSON''), (246, ''NEWDECIMAL''), (247, ''ENUM''),
      (248, ''SET''), (249, ''TINY_BLOB''), (250, ''MEDIUM_BLOB''), (251, ''LONG_BLOB''),
      (252, ''BLOB''), (253, ''VAR_STRING''), (254, ''STRING''), (255, ''GEOMETRY'')]"

definition getFieldTypeName :: "nat option \<Rightarrow> string" where
  "getFieldTypeName typeNum =
     (case map_of typeMap (case typeNum of None \<Rightarrow> 253 | Some n \<Rightarrow> n) of
        None \<Rightarrow> ''UNKNOWN''
      | Some name \<Rightarrow> name)"

text \<open>
  \<^verbatim>\<open>rows.slice(0, limit)\<close>: a negative end counts from the end of the array.
\<close>

definition sliceFromStart :: "'a list \<Rightarrow> int \<Rightarrow> 'a list" where
  "sliceFromStart xs e =
     (if e < 0 then take (nat (int (length xs) + e)) xs else take (nat e) xs)"

text \<open>
  The outcome of the promise of \<^verbatim>\<open>executeWithLimit\<close> at the time the race is decided.
\<close>

datatype 'a promise = Fulfilled 'a | Rejected string | Pending

text \<open>\<^verbatim>\<open>executeWithLimit\<close>: one more row than the limit is requested.\<close>

definition executeWithLimit :: "pool \<Rightarrow> string \<Rightarrow> js_value list \<Rightarrow> int \<Rightarrow> QueryResult promise" where
  "executeWithLimit p query params limit =
     (let queryWithLimit = addLimitToQuery query (limit + 1) in
      case p queryWithLimit params of
        Answer rs fs \<Rightarrow>
          (let trunc = (int (length rs) > limit);
               resultRows = (if trunc then sliceFromStart rs limit else rs);
               fieldInfo = map (\<lambda>field. \<lparr>fi_name = fp_name field,
                                         fi_type = getFieldTypeName (fp_type field)\<rparr>) fs
           in Fulfilled \<lparr>rows = resultRows, resultFields = fieldInfo,
                         rowCount = length resultRows, truncated = trunc\<rparr>)
      | DriverError m \<Rightarrow> Rejected m
      | NoAnswerInTime \<Rightarrow> Pending)"

text \<open>
  \<^verbatim>\<open>executeQuery\<close>. The validator it calls is imported from a module that is not among
  the sources, so it is the first argument here: any function from the query text to a
  verdict. The result is the value the returned promise settles with (\<open>Inl\<close> the message
  of the error thrown) and the manager afterwards. The order is the source's: validation,
  then the pool, then the limit, then the statement is given to the pool and raced against
  the timer.
\<close>

definition executeQuery ::
  "(string \<Rightarrow> ValidationResult) \<Rightarrow> ConnectionManager \<Rightarrow> DatabaseType \<Rightarrow> string \<Rightarrow>
     js_value list \<Rightarrow> int option \<Rightarrow> (string + QueryResult) \<times> ConnectionManager" where
  "executeQuery validator mgr database query params limit =
     (let validation = validator query in
      if \<not> valid validation then
        (Inl (case error validation of
                None \<Rightarrow> ''Invalid query''
              | Some e \<Rightarrow> if e = [] then ''Invalid query'' else e), mgr)
      else
        (case pools mgr database of
           None \<Rightarrow>
             (Inl (''Connection pool not initialized for database: '' @ databaseName database), mgr)
         | Some p \<Rightarrow>
             (let effectiveLimit = (case limit of None \<Rightarrow> QUERY_DEFAULT | Some l \<Rightarrow> l);
                  mgr' = mgr\<lparr>executed := executed mgr @
                                [(database, addLimitToQuery query (effectiveLimit + 1))]\<rparr>
              in case executeWithLimit p query params effectiveLimit of
                   Fulfilled result \<Rightarrow> (Inr result, mgr')
                 | Rejected m \<Rightarrow> (Inl (sanitizeMessage m), mgr')
                 | Pending \<Rightarrow>
                     (Inl (sanitizeMessage (''Query exceeded '' @
                            numberToString (TIMEOUT_MS div 1000) @ '' second timeout limit'')),
                      mgr'))))"

text \<open>
  \<^verbatim>\<open>testConnection\<close>; the last argument is the outcome of \<^verbatim>\<open>pool.getConnection()\<close>:
  \<^term>\<open>None\<close> when a connection was obtained, the driver error's message otherwise.
\<close>

definition testConnection ::
  "ConnectionManager \<Rightarrow> DatabaseType \<Rightarrow> string option \<Rightarrow> string + unit" where
  "testConnection mgr database connectionError =
     (case pools mgr database of
        None \<Rightarrow> Inl (''Connection pool not initialized for database: '' @ databaseName database)
      | Some p \<Rightarrow>
          (case connectionError of
             None \<Rightarrow> Inr ()
           | Some e \<Rightarrow>
               (case configs mgr database of
                  Some config \<Rightarrow> Inl (createConnectionErrorMessage config e)
                | None \<Rightarrow> Inl (''Database connection failed: '' @ databaseName database))))"

section \<open>Relationship types\<close>

datatype relation_type = OneToOne | OneToMany

definition uniqueCountQuery :: string where
  "uniqueCountQuery =
     ''\<newline>    SELECT COUNT(*) as unique_count\<newline>    FROM INFORMATION_SCHEMA.STATISTICS\<newline>    WHERE TABLE_SCHEMA = DATABASE()\<newline>      AND TABLE_NAME = ?\<newline>      AND COLUMN_NAME = ?\<newline>      AND NON_UNIQUE = 0\<newline>  ''"

subsection \<open>Conversion of a cell to a number\<close>

text \<open>
  The source computes \<^verbatim>\<open>Number(row.unique_count || 0)\<close> and only asks whether the result
  is greater than 0, so the model keeps the sign of the number: not a number (which is
  greater than nothing), below zero, zero (of either sign), or above zero.
\<close>

datatype number_sign = NotANumber | Negative | Zero | Positive

definition signOfInt :: "int \<Rightarrow> number_sign" where
  "signOfInt i = (if i < 0 then Negative else if i = 0 then Zero else Positive)"

definition digitsValue :: "string \<Rightarrow> nat" where
  "digitsValue ds = foldl (\<lambda>acc c. 10 * acc + (of_char c - 48)) 0 ds"

text \<open>
  The exponent part that may end a decimal literal: nothing, or \<^verbatim>\<open>e\<close> or \<^verbatim>\<open>E\<close>, an optional
  sign and at least one digit.
\<close>

definition exponentPart :: "string \<Rightarrow> int option" where
  "exponentPart s =
     (case s of
        [] \<Rightarrow> Some 0
      | e # r \<Rightarrow>
          if e = CHR ''e'' \<or> e = CHR ''E'' then
            (case r of
               [] \<Rightarrow> None
             | sg # ds \<Rightarrow>
                 if sg = CHR ''-'' then
                   (if ds \<noteq> [] \<and> list_all isDigit ds then Some (- int (digitsValue ds)) else None)
                 else if sg = CHR ''+'' then
                   (if ds \<noteq> [] \<and> list_all isDigit ds then Some (int (digitsValue ds)) else None)
                 else (if list_all isDigit r then Some (int (digitsValue r)) else None))
          else None)"

text \<open>
  The value of a literal, the digits \<open>d\<close> times 10 to the power \<open>k\<close>, is rounded to the
  nearest double, ties to even. It becomes a double above zero exactly when it exceeds 2
  to the power -1075, half the least positive double; a value too large becomes infinity,
  which is above zero too. From \<open>k = -323\<close> on every value with \<open>d > 0\<close> exceeds that bound.
\<close>

definition roundsAboveZero :: "nat \<Rightarrow> int \<Rightarrow> bool" where
  "roundsAboveZero d k =
     (0 < d \<and> (if - 323 \<le> k then True else 10 ^ nat (- k) < d * 2 ^ 1075))"

text \<open>
  A decimal literal without sign: \<^verbatim>\<open>Infinity\<close>, or digits with an optional fraction, or a
  fraction alone, each with an optional exponent. \<^term>\<open>None\<close> when the text is no such
  literal; otherwise whether its value is above zero.
\<close>

definition unsignedDecimal :: "string \<Rightarrow> bool option" where
  "unsignedDecimal s =
     (if s = ''Infinity'' then Some True
      else
        (let ip = takeWhile isDigit s;
             r1 = dropWhile isDigit s;
             fp = (case r1 of [] \<Rightarrow> [] | c # r \<Rightarrow> if c = CHR ''.'' then takeWhile isDigit r else []);
             r2 = (case r1 of [] \<Rightarrow> [] | c # r \<Rightarrow> if c = CHR ''.'' then dropWhile isDigit r else r1)
         in if ip = [] \<and> fp = [] then None
            else (case exponentPart r2 of
                    None \<Rightarrow> None
                  | Some e \<Rightarrow> Some (roundsAboveZero (digitsValue (ip @ fp)) (e - int (length fp))))))"

definition isHexDigit :: "char \<Rightarrow> bool" where
  "isHexDigit c =
     (let n = (of_char c :: nat) in
      (48 \<le> n \<and> n \<le> 57) \<or> (65 \<le> n \<and> n \<le> 70) \<or> (97 \<le> n \<and> n \<le> 102))"

text \<open>
  A hexadecimal, octal or binary integer literal (\<^verbatim>\<open>0x1F\<close>, \<^verbatim>\<open>0o17\<close>, \<^verbatim>\<open>0b101\<close>; no sign is
  allowed): whether its value is above zero.
\<close>

definition radixLiteral :: "string \<Rightarrow> bool option" where
  "radixLiteral s =
     (case s of
        z # x # ds \<Rightarrow>
          if z = CHR ''0'' \<and> ds \<noteq> [] \<and>
             (((x = CHR ''x'' \<or> x = CHR ''X'') \<and> list_all isHexDigit ds) \<or>
              ((x = CHR ''o'' \<or> x = CHR ''O'') \<and> list_all (\<lambda>d. d \<in> set ''01234567'') ds) \<or>
              ((x = CHR ''b'' \<or> x = CHR ''B'') \<and> list_all (\<lambda>d. d \<in> set ''01'') ds))
          then Some (list_ex (\<lambda>d. d \<noteq> CHR ''0'') ds)
          else None
      | _ \<Rightarrow> None)"

text \<open>
  \<^verbatim>\<open>Number(s)\<close> for a string: white space around the literal is dropped, the empty text
  counts as 0, and a text that is no numeric literal is not a number.
\<close>

definition stringToNumber :: "string \<Rightarrow> number_sign" where
  "stringToNumber s =
     (let t = trim s in
      case t of
        [] \<Rightarrow> Zero
      | c # r \<Rightarrow>
          (case radixLiteral t of
             Some b \<Rightarrow> (if b then Positive else Zero)
           | None \<Rightarrow>
               if c = CHR ''-'' then
                 (case unsignedDecimal r of
                    None \<Rightarrow> NotANumber | Some b \<Rightarrow> if b then Negative else Zero)
               else if c = CHR ''+'' then
                 (case unsignedDecimal r of
                    None \<Rightarrow> NotANumber | Some b \<Rightarrow> if b then Positive else Zero)
               else
                 (case unsignedDecimal t of
                    None \<Rightarrow> NotANumber | Some b \<Rightarrow> if b then Positive else Zero)))"

text \<open>
  Binary data is a \<^verbatim>\<open>Buffer\<close>; \<^verbatim>\<open>Number\<close> converts it through its text, the bytes decoded
  as UTF-8. White space of the text is one of the bytes 9 to 13 and 32, or the encoding of
  U+00A0, U+1680, U+2000 to U+200A, U+2028, U+2029, U+202F, U+205F, U+3000 or U+FEFF; each
  of these encodings starts with a byte that is no continuation byte, so it is decoded as
  that character wherever it stands.
\<close>

definition isWsByte :: "nat \<Rightarrow> bool" where
  "isWsByte a = ((9 \<le> a \<and> a \<le> 13) \<or> a = 32)"

definition isWs2 :: "nat \<Rightarrow> nat \<Rightarrow> bool" where
  "isWs2 a b = (a = 0xC2 \<and> b = 0xA0)"

definition isWs3 :: "nat \<Rightarrow> nat \<Rightarrow> nat \<Rightarrow> bool" where
  "isWs3 a b c =
     ((a = 0xE1 \<and> b = 0x9A \<and> c = 0x80) \<or>
      (a = 0xE2 \<and> b = 0x80 \<and> ((0x80 \<le> c \<and> c \<le> 0x8A) \<or> c = 0xA8 \<or> c = 0xA9 \<or> c = 0xAF)) \<or>
      (a = 0xE2 \<and> b = 0x81 \<and> c = 0x9F) \<or>
      (a = 0xE3 \<and> b = 0x80 \<and> c = 0x80) \<or>
      (a = 0xEF \<and> b = 0xBB \<and> c = 0xBF))"

text \<open>White space dropped from the front of the bytes, and from the end of the reversed bytes.\<close>

fun dropWsFront :: "nat list \<Rightarrow> nat list" where
  "dropWsFront (a # b # c # r) =
     (if isWsByte a then dropWsFront (b # c # r)
      else if isWs2 a b then dropWsFront (c # r)
      else if isWs3 a b c then dropWsFront r
      else a # b # c # r)"
| "dropWsFront [a, b] =
     (if isWsByte a then dropWsFront [b] else if isWs2 a b then [] else [a, b])"
| "dropWsFront [a] = (if isWsByte a then [] else [a])"
| "dropWsFront [] = []"

fun dropWsBack :: "nat list \<Rightarrow> nat list" where
  "dropWsBack (c # b # a # r) =
     (if isWsByte c then dropWsBack (b # a # r)
      else if isWs2 b c then dropWsBack (a # r)
      else if isWs3 a b c then dropWsBack r
      else c # b # a # r)"
| "dropWsBack [c, b] =
     (if isWsByte c then dropWsBack [b] else if isWs2 b c then [] else [c, b])"
| "dropWsBack [c] = (if isWsByte c then [] else [c])"
| "dropWsBack [] = []"

text \<open>
  What is left between the white space must be a numeric literal, which is ASCII; any
  other byte stands for a character that is neither white space nor part of a literal.
\<close>

definition bufferToNumber :: "nat list \<Rightarrow> number_sign" where
  "bufferToNumber bytes =
     (let m = rev (dropWsBack (rev (dropWsFront bytes))) in
      if list_all (\<lambda>b. b < 128) m then stringToNumber (map char_of m) else NotANumber)"

text \<open>\<^verbatim>\<open>Number(v)\<close> for a cell, and the cells that count as false in \<^verbatim>\<open>v || 0\<close>.\<close>

definition toNumber :: "js_value \<Rightarrow> number_sign" where
  "toNumber v =
     (case v of
        JString s \<Rightarrow> stringToNumber s
      | JNumber n \<Rightarrow> signOfInt n
      | JBoolean b \<Rightarrow> (if b then Positive else Zero)
      | JNull \<Rightarrow> Zero
      | JBinary bytes \<Rightarrow> bufferToNumber bytes)"

definition falsy :: "js_value \<Rightarrow> bool" where
  "falsy v =
     (case v of
        JString s \<Rightarrow> s = []
      | JNumber n \<Rightarrow> n = 0
      | JBoolean b \<Rightarrow> \<not> b
      | JNull \<Rightarrow> True
      | JBinary bytes \<Rightarrow> False)"

text \<open>\<^verbatim>\<open>Number(row.unique_count || 0)\<close>; a row without the column gives \<^term>\<open>None\<close>.\<close>

definition numberOrZero :: "js_value option \<Rightarrow> number_sign" where
  "numberOrZero cell =
     (case cell of
        None \<Rightarrow> Zero
      | Some v \<Rightarrow> if falsy v then Zero else toNumber v)"

subsection \<open>The classifier\<close>

text \<open>
  \<^verbatim>\<open>determineRelationType\<close>: the \<^verbatim>\<open>try\<close> block around the query, and the default after
  it. The manager after the call is returned with the type; the validator is passed on to
  \<open>executeQuery\<close>.
\<close>

definition determineRelationType ::
  "(string \<Rightarrow> ValidationResult) \<Rightarrow> ConnectionManager \<Rightarrow> DatabaseType \<Rightarrow> string \<Rightarrow> string
     \<Rightarrow> relation_type \<times> ConnectionManager" where
  "determineRelationType validator mgr database tableName columnName =
     (case executeQuery validator mgr database uniqueCountQuery
             [JString tableName, JString columnName] None of
        (Inr result, mgr') \<Rightarrow>
          (case rows result of
             r0 # rest \<Rightarrow>
               (if numberOrZero (map_of r0 ''unique_count'') = Positive then OneToOne
                else OneToMany, mgr')
           | [] \<Rightarrow> (OneToMany, mgr'))
      | (Inl e, mgr') \<Rightarrow> (OneToMany, mgr'))"

subsection \<open>The index catalogue of the engine\<close>

text \<open>
  The database engine is outside the repository. Its part in the classification is
  modelled from the documentation of \<^verbatim>\<open>INFORMATION_SCHEMA.STATISTICS\<close>: the view holds one
  row for each column of each index of a table, and \<^verbatim>\<open>NON_UNIQUE\<close> is 0 in the rows of an
  index that admits no duplicates. An index is given by its table, its name, whether it is
  unique, and its columns in order.
\<close>

record index_def =
  ix_table :: string
  ix_name :: string
  ix_unique :: bool
  ix_columns :: "string list"

record statistics_row =
  st_table_name :: string
  st_index_name :: string
  st_column_name :: string
  st_non_unique :: bool

definition statisticsRows :: "index_def list \<Rightarrow> statistics_row list" where
  "statisticsRows catalogue =
     concat (map (\<lambda>i. map (\<lambda>c. \<lparr>st_table_name = ix_table i, st_index_name = ix_name i,
                                  st_column_name = c, st_non_unique = (\<not> ix_unique i)\<rparr>)
                          (ix_columns i)) catalogue)"

text \<open>What \<^verbatim>\<open>COUNT(*)\<close> of the uniqueness query counts, for a table and a column.\<close>

definition uniqueCount :: "index_def list \<Rightarrow> string \<Rightarrow> string \<Rightarrow> nat" where
  "uniqueCount catalogue t c =
     length (filter (\<lambda>r. st_table_name r = t \<and> st_column_name r = c \<and> \<not> st_non_unique r)
                    (statisticsRows catalogue))"

text \<open>
  An engine with this catalogue as a pool: it answers the uniqueness statement, as it
  arrives with the row limit of the connection manager, with the one row of the count, and
  knows no other statement.
\<close>

definition catalogueEngine :: "index_def list \<Rightarrow> pool" where
  "catalogueEngine catalogue sql params =
     (if sql = ''SELECT COUNT(*) as unique_count\<newline>    FROM INFORMATION_SCHEMA.STATISTICS\<newline>    WHERE TABLE_SCHEMA = DATABASE()\<newline>      AND TABLE_NAME = ?\<newline>      AND COLUMN_NAME = ?\<newline>      AND NON_UNIQUE = 0 LIMIT 1001''
      then (case params of
              [JString t, JString c] \<Rightarrow>
                Answer [[(''unique_count'', JNumber (int (uniqueCount catalogue t c)))]]
                       [\<lparr>fp_name = ''unique_count'', fp_type = Some 8\<rparr>]
            | _ \<Rightarrow> DriverError ''Incorrect arguments to mysqld_stmt_execute'')
      else DriverError ''You have an error in your SQL syntax'')"

text \<open>
  The words of the claim: the column carries a unique constraint when some unique index
  of the table has this column as its only column.
\<close>

definition carriesUniqueConstraint :: "index_def list \<Rightarrow> string \<Rightarrow> string \<Rightarrow> bool" where
  "carriesUniqueConstraint catalogue t c =
     list_ex (\<lambda>i. ix_table i = t \<and> ix_unique i \<and> ix_columns i = [c]) catalogue"

section \<open>The preview query\<close>

record PreviewDataInput =
  pd_table :: string
  pd_database :: "DatabaseType option"
  pd_columns :: "string list option"
  pd_limit :: "int option"
  pd_where :: "string option"

text \<open>
  \<^verbatim>\<open>escapeSqlIdentifier\<close> removes the backtick, both quotes, the backslash and the
  semicolon.
\<close>

definition dangerousChars :: "char list" where
  "dangerousChars = [CHR 0x60, CHR 0x27, CHR 0x22, CHR 0x5C, CHR 0x3B]"

definition escapeSqlIdentifier :: "string \<Rightarrow> string" where
  "escapeSqlIdentifier identifier = filter (\<lambda>c. c \<notin> set dangerousChars) identifier"

fun joinWith :: "string \<Rightarrow> string list \<Rightarrow> string" where
  "joinWith sep [] = []"
| "joinWith sep [x] = x"
| "joinWith sep (x # y # ys) = x @ sep @ joinWith sep (y # ys)"

definition buildColumnList :: "string list option \<Rightarrow> string" where
  "buildColumnList columns =
     (case columns of
        None \<Rightarrow> ''*''
      | Some cols \<Rightarrow>
          if cols = [] then ''*''
          else joinWith '', '' (map (\<lambda>col. [CHR 0x60] @ escapeSqlIdentifier col @ [CHR 0x60]) cols))"

definition sanitizeWhereClause :: "string option \<Rightarrow> string option" where
  "sanitizeWhereClause wh =
     (case wh of
        None \<Rightarrow> None
      | Some w \<Rightarrow>
          if w = [] then None
          else (let trimmed = trim w in
                if trimmed = [] then None
                else Some (filter (\<lambda>c. c \<noteq> CHR 0x3B) trimmed)))"

text \<open>The statement that \<^verbatim>\<open>previewData\<close> builds and gives to \<^verbatim>\<open>executeQuery\<close>.\<close>

definition previewDataQuery :: "PreviewDataInput \<Rightarrow> string" where
  "previewDataQuery input =
     (let tableName = pd_table input;
          limit = enforceRowLimit (pd_limit input);
          columnList = buildColumnList (pd_columns input);
          whereClause = sanitizeWhereClause (pd_where input);
          query = ''SELECT '' @ columnList @ '' FROM '' @ [CHR 0x60] @
                  escapeSqlIdentifier tableName @ [CHR 0x60];
          query' = (case whereClause of
                      None \<Rightarrow> query
                    | Some w \<Rightarrow> if w = [] then query else query @ '' WHERE '' @ w)
      in query' @ '' LIMIT '' @ numberToString limit)"


section \<open>Properties of the limits\<close>

text \<open>
  Claim C3, as the code has it: both enforcers return a value within their bounds (1 to
  5000 for free-form queries, 1 to 100 for previews); an absent limit and a limit below 1
  give the default (1000, 10); a limit above the maximum gives the maximum (5000, 100), not
  the default; a limit within the bounds is returned unchanged.
\<close>

theorem enforce_limits_clamp:
  "1 \<le> enforceQueryLimit L \<and> enforceQueryLimit L \<le> 5000 \<and>
   1 \<le> enforceRowLimit L \<and> enforceRowLimit L \<le> 100 \<and>
   enforceQueryLimit None = 1000 \<and> enforceRowLimit None = 10 \<and>
   (l < 1 \<longrightarrow> enforceQueryLimit (Some l) = 1000 \<and> enforceRowLimit (Some l) = 10) \<and>
   (5000 < l \<longrightarrow> enforceQueryLimit (Some l) = 5000) \<and>
   (100 < l \<longrightarrow> enforceRowLimit (Some l) = 100) \<and>
   (1 \<le> l \<and> l \<le> 5000 \<longrightarrow> enforceQueryLimit (Some l) = l) \<and>
   (1 \<le> l \<and> l \<le> 100 \<longrightarrow> enforceRowLimit (Some l) = l)"
  by (cases L)
     (simp_all add: enforceQueryLimit_def enforceRowLimit_def QUERY_DEFAULT_def QUERY_MAX_def
        PREVIEW_DEFAULT_def PREVIEW_MAX_def)

theorem enforce_limits_clamp_witness:
  "enforceQueryLimit (Some 0) = 1000 \<and> enforceRowLimit (Some 0) = 10 \<and>
   enforceQueryLimit (Some 6000) = 5000 \<and> enforceRowLimit (Some 6000) = 100 \<and>
   enforceQueryLimit (Some 42) = 42 \<and> enforceRowLimit (Some 42) = 42"
  using enforce_limits_clamp [of None 0] enforce_limits_clamp [of None 6000]
    enforce_limits_clamp [of None 42]
  by simp

text \<open>
  The claim as it was stated fails above the maximum: 6000 and 101 are out of range, and
  the enforcers answer with the maximum, not with the default.
\<close>

theorem enforce_limits_default_counterexample:
  "(5000::int) < 6000 \<and> enforceQueryLimit (Some 6000) = 5000 \<and> enforceQueryLimit (Some 6000) \<noteq> 1000 \<and>
   (100::int) < 101 \<and> enforceRowLimit (Some 101) = 100 \<and> enforceRowLimit (Some 101) \<noteq> 10"
  by (simp add: enforceQueryLimit_def enforceRowLimit_def QUERY_DEFAULT_def QUERY_MAX_def
        PREVIEW_DEFAULT_def PREVIEW_MAX_def)

section \<open>Properties of text truncation\<close>

text \<open>
  Claim C8: a string longer than 200 code units is cut to 203: its first 200 code units
  followed by the ellipsis; a string of at most 200 code units is returned as it is; a
  value that is no string (a number, a boolean, null, binary data) is returned as it is.
\<close>

theorem truncateText_spec:
  "(200 < length s \<longrightarrow>
      (\<exists>t. truncateText (JString s) = JString t \<and> length t = 203 \<and>
           drop 200 t = ''...'' \<and> take 200 t = take 200 s)) \<and>
   (length s \<le> 200 \<longrightarrow> truncateText (JString s) = JString s) \<and>
   truncateText (JNumber n) = JNumber n \<and>
   truncateText (JBoolean b) = JBoolean b \<and>
   truncateText JNull = JNull \<and>
   truncateText (JBinary bs) = JBinary bs"
  by (simp add: truncateText_def TEXT_TRUNCATE_def)

theorem truncateText_spec_witness:
  "200 < length (replicate 201 CHR ''a'') \<and>
   (\<exists>t. truncateText (JString (replicate 201 CHR ''a'')) = JString t \<and> length t = 203 \<and>
        drop 200 t = ''...'' \<and> take 200 t = take 200 (replicate 201 CHR ''a'')) \<and>
   length ''abc'' \<le> 200 \<and> truncateText (JString ''abc'') = JString ''abc''"
  using truncateText_spec [of "replicate 201 CHR ''a''"] truncateText_spec [of "''abc''"]
  by simp


section \<open>Properties of the preview query\<close>

lemma digitChar_in: "digitChar d \<in> set ''0123456789''"
  unfolding digitChar_def by (rule nth_mem) simp

lemma natToString_digits: "set (natToString n) \<subseteq> set ''0123456789''"
proof (induction n rule: natToString.induct)
  case (1 n)
  show ?case
  proof (cases "n < 10")
    case True
    then show ?thesis using digitChar_in [of n] by (subst natToString.simps) simp
  next
    case False
    then show ?thesis using 1 digitChar_in [of n] by (subst natToString.simps) simp
  qed
qed

lemma natToString_nonempty: "natToString n \<noteq> []"
  by (subst natToString.simps) simp

lemma escapeSqlIdentifier_clean: "set (escapeSqlIdentifier x) \<inter> set dangerousChars = {}"
  by (auto simp: escapeSqlIdentifier_def)

lemma joinWith_notin:
  "c \<notin> set sep \<Longrightarrow> (\<And>x. x \<in> set xs \<Longrightarrow> c \<notin> set x) \<Longrightarrow> c \<notin> set (joinWith sep xs)"
  by (induction sep xs rule: joinWith.induct) auto

lemma semicolon_not_digit: "CHR 0x3B \<notin> set (natToString n)"
  using natToString_digits [of n] by auto

lemma enforceRowLimit_range: "1 \<le> enforceRowLimit L \<and> enforceRowLimit L \<le> 100"
  by (cases L) (simp_all add: enforceRowLimit_def PREVIEW_DEFAULT_def PREVIEW_MAX_def)

lemma numberToString_pos: "0 \<le> i \<Longrightarrow> numberToString i = natToString (nat i)"
  by (simp add: numberToString_def)

lemma buildColumnList_notin:
  assumes "c \<in> set [CHR 0x27, CHR 0x22, CHR 0x5C, CHR 0x3B]"
  shows "c \<notin> set (buildColumnList cols)"
proof (cases cols)
  case None
  then show ?thesis using assms by (auto simp: buildColumnList_def)
next
  case (Some cs)
  have esc: "c \<notin> set (escapeSqlIdentifier x)" for x
    using assms by (auto simp: escapeSqlIdentifier_def dangerousChars_def)
  have "c \<notin> set (joinWith '', '' (map (\<lambda>col. [CHR 0x60] @ escapeSqlIdentifier col @ [CHR 0x60]) cs))"
  proof (rule joinWith_notin)
    show "c \<notin> set '', ''" using assms by auto
  next
    fix x assume "x \<in> set (map (\<lambda>col. [CHR 0x60] @ escapeSqlIdentifier col @ [CHR 0x60]) cs)"
    then obtain col where "x = [CHR 0x60] @ escapeSqlIdentifier col @ [CHR 0x60]" by auto
    then show "c \<notin> set x" using esc [of col] assms by auto
  qed
  then show ?thesis using Some assms by (auto simp: buildColumnList_def)
qed

lemma buildColumnList_chars:
  "set (buildColumnList cols) \<inter> set [CHR 0x27, CHR 0x22, CHR 0x5C, CHR 0x3B] = {}"
  using buildColumnList_notin by blast

lemma sanitizeWhereClause_no_semicolon:
  "sanitizeWhereClause w = Some x \<Longrightarrow> CHR 0x3B \<notin> set x"
  by (auto simp: sanitizeWhereClause_def Let_def split: option.splits if_splits)

lemma scanAtBoundary_after:
  "m (c # cs) \<Longrightarrow> \<not> isWordChar x \<Longrightarrow> scanAtBoundary m b (u @ x # c # cs)"
  by (induction u arbitrary: b) simp_all

lemma limitAt_digits:
  assumes "ds \<noteq> []" and "set ds \<subseteq> set ''0123456789''"
  shows "limitAt (''LIMIT '' @ ds)"
proof -
  from assms obtain d ds' where ds: "ds = d # ds'" and d: "d \<in> set ''0123456789''"
    by (cases ds) auto
  from d have "isDigit d" "\<not> isSpace d" by (auto simp: isDigit_def isSpace_def)
  then show ?thesis unfolding ds by (simp add: limitAt_def isSpace_def)
qed

lemma hasLimitClause_appended:
  assumes "ds \<noteq> []" and "set ds \<subseteq> set ''0123456789''"
  shows "hasLimitClause (pre @ '' LIMIT '' @ ds)"
proof -
  have "scanAtBoundary limitAt False (pre @ CHR '' '' # CHR ''L'' # (''IMIT '' @ ds))"
    by (rule scanAtBoundary_after)
       (use limitAt_digits [OF assms] in \<open>simp_all add: isWordChar_def isLetter_def isDigit_def\<close>)
  then show ?thesis by (simp add: hasLimitClause_def)
qed

text \<open>
  The statement built for a preview is the fixed text around the escaped column names, the
  escaped table name, the sanitised filter (if any) and the enforced limit. An escaped
  identifier holds no backtick, quote, backslash or semicolon; the column list holds no
  quote, backslash or semicolon at all (its backticks are the delimiters); the filter
  holds no semicolon, and neither does the whole statement; the text of the statement ends
  with \<^verbatim>\<open>LIMIT n\<close> for the enforced limit \<open>n\<close>, which lies between 1 and 100. The
  connection manager's test for a limit finds this text, so it adds no limit of its own
  and the statement reaches the pool as built.
\<close>

lemma previewDataQuery_shape:
  "(\<exists>w. previewDataQuery input =
          ''SELECT '' @ buildColumnList (pd_columns input) @ '' FROM '' @ [CHR 0x60] @
          escapeSqlIdentifier (pd_table input) @ [CHR 0x60] @ w @ '' LIMIT '' @
          numberToString (enforceRowLimit (pd_limit input)) \<and>
        CHR 0x3B \<notin> set w \<and>
        (w = [] \<or> (\<exists>x. sanitizeWhereClause (pd_where input) = Some x \<and> w = '' WHERE '' @ x))) \<and>
   set (escapeSqlIdentifier (pd_table input)) \<inter> set dangerousChars = {} \<and>
   (\<forall>cols. pd_columns input = Some cols \<and> cols \<noteq> [] \<longrightarrow>
      buildColumnList (pd_columns input) =
        joinWith '', '' (map (\<lambda>col. [CHR 0x60] @ escapeSqlIdentifier col @ [CHR 0x60]) cols) \<and>
      (\<forall>col \<in> set cols. set (escapeSqlIdentifier col) \<inter> set dangerousChars = {})) \<and>
   set (buildColumnList (pd_columns input)) \<inter> set [CHR 0x27, CHR 0x22, CHR 0x5C, CHR 0x3B] = {} \<and>
   CHR 0x3B \<notin> set (previewDataQuery input) \<and>
   suffix ('' LIMIT '' @ numberToString (enforceRowLimit (pd_limit input))) (previewDataQuery input) \<and>
   1 \<le> enforceRowLimit (pd_limit input) \<and> enforceRowLimit (pd_limit input) \<le> 100 \<and>
   hasLimitClause (previewDataQuery input) \<and>
   addLimitToQuery (previewDataQuery input) n = previewDataQuery input"
proof -
  let ?lim = "enforceRowLimit (pd_limit input)"
  let ?head = "''SELECT '' @ buildColumnList (pd_columns input) @ '' FROM '' @ [CHR 0x60] @
          escapeSqlIdentifier (pd_table input) @ [CHR 0x60]"
  define w where "w = (case sanitizeWhereClause (pd_where input) of None \<Rightarrow> []
                       | Some x \<Rightarrow> if x = [] then [] else '' WHERE '' @ x)"
  have q: "previewDataQuery input = ?head @ w @ '' LIMIT '' @ numberToString ?lim"
    by (simp add: previewDataQuery_def w_def Let_def split: option.splits)
  have w_semi: "CHR 0x3B \<notin> set w"
    using sanitizeWhereClause_no_semicolon [of "pd_where input"]
    by (auto simp: w_def split: option.splits)
  have w_shape: "w = [] \<or> (\<exists>x. sanitizeWhereClause (pd_where input) = Some x \<and> w = '' WHERE '' @ x)"
    by (auto simp: w_def split: option.splits)
  have range: "1 \<le> ?lim \<and> ?lim \<le> 100" by (rule enforceRowLimit_range)
  have tbl: "set (escapeSqlIdentifier (pd_table input)) \<inter> set dangerousChars = {}"
    by (rule escapeSqlIdentifier_clean)
  have cols: "set (buildColumnList (pd_columns input)) \<inter> set [CHR 0x27, CHR 0x22, CHR 0x5C, CHR 0x3B] = {}"
    by (rule buildColumnList_chars)
  have lim_semi: "CHR 0x3B \<notin> set (numberToString ?lim)"
    using range semicolon_not_digit by (simp add: numberToString_pos)
  have tbl_semi: "CHR 0x3B \<notin> set (escapeSqlIdentifier (pd_table input))"
    using tbl by (auto simp: dangerousChars_def)
  have cols_semi: "CHR 0x3B \<notin> set (buildColumnList (pd_columns input))"
    using cols by auto
  have semi: "CHR 0x3B \<notin> set (previewDataQuery input)"
    unfolding q using w_semi lim_semi tbl_semi cols_semi by simp
  have suf: "suffix ('' LIMIT '' @ numberToString ?lim) (previewDataQuery input)"
    unfolding q suffix_def by (rule exI [of _ "?head @ w"]) simp
  have collist: "\<forall>cols. pd_columns input = Some cols \<and> cols \<noteq> [] \<longrightarrow>
      buildColumnList (pd_columns input) =
        joinWith '', '' (map (\<lambda>col. [CHR 0x60] @ escapeSqlIdentifier col @ [CHR 0x60]) cols) \<and>
      (\<forall>col \<in> set cols. set (escapeSqlIdentifier col) \<inter> set dangerousChars = {})"
    using escapeSqlIdentifier_clean by (simp add: buildColumnList_def)
  have first: "\<exists>w. previewDataQuery input =
          ''SELECT '' @ buildColumnList (pd_columns input) @ '' FROM '' @ [CHR 0x60] @
          escapeSqlIdentifier (pd_table input) @ [CHR 0x60] @ w @ '' LIMIT '' @
          numberToString (enforceRowLimit (pd_limit input)) \<and>
        CHR 0x3B \<notin> set w \<and>
        (w = [] \<or> (\<exists>x. sanitizeWhereClause (pd_where input) = Some x \<and> w = '' WHERE '' @ x))"
    using q w_semi w_shape by (intro exI [of _ w]) simp
  have ds: "numberToString ?lim = natToString (nat ?lim)"
    using range by (simp add: numberToString_pos)
  have "hasLimitClause ((?head @ w) @ '' LIMIT '' @ natToString (nat ?lim))"
    by (rule hasLimitClause_appended [OF natToString_nonempty natToString_digits])
  then have hl: "hasLimitClause (previewDataQuery input)"
    unfolding q ds by simp
  then have al: "addLimitToQuery (previewDataQuery input) n = previewDataQuery input"
    by (simp add: addLimitToQuery_def)
  show ?thesis
    by (intro conjI first tbl collist cols semi suf conjunct1 [OF range] conjunct2 [OF range] hl al)
qed


text \<open>
  Claim C10 fails on a filter that opens a comment. The filter \<^verbatim>\<open>1=1 -- \<close> is trimmed and
  keeps its two dashes; with the appended text they read \<^verbatim>\<open>-- LIMIT 5\<close>, a comment to the
  end of the line, so the statement built has no limit clause at all although its text
  ends with one. The manager's test still finds the text and adds no limit of its own.
  An engine that reads the statement as it stands answers with every row of the table (7
  rows below), and the preview gets all of them, not 5.
\<close>

theorem previewDataQuery_limit_in_comment:
  "previewDataQuery \<lparr>pd_table = ''t'', pd_database = None, pd_columns = None,
                     pd_limit = Some 5, pd_where = Some ''1=1 -- ''\<rparr> =
     ''SELECT * FROM '' @ [CHR 0x60] @ ''t'' @ [CHR 0x60] @ '' WHERE 1=1 -- LIMIT 5'' \<and>
   enforceRowLimit (Some 5) = 5 \<and>
   addLimitToQuery (previewDataQuery \<lparr>pd_table = ''t'', pd_database = None, pd_columns = None,
                     pd_limit = Some 5, pd_where = Some ''1=1 -- ''\<rparr>) (QUERY_DEFAULT + 1) =
     previewDataQuery \<lparr>pd_table = ''t'', pd_database = None, pd_columns = None,
                     pd_limit = Some 5, pd_where = Some ''1=1 -- ''\<rparr> \<and>
   (\<exists>result.
      fst (executeQuery validate
             \<lparr>pools = [crm \<mapsto> (\<lambda>sql ps.
                  if sql = ''SELECT * FROM '' @ [CHR 0x60] @ ''t'' @ [CHR 0x60] @ '' WHERE 1=1 -- LIMIT 5''
                  then Answer (replicate 7 [(''id'', JNumber 1)]) []
                  else DriverError ''unknown statement'')],
              configs = Map.empty, executed = []\<rparr> crm
             (previewDataQuery \<lparr>pd_table = ''t'', pd_database = None, pd_columns = None,
                     pd_limit = Some 5, pd_where = Some ''1=1 -- ''\<rparr>) [] None) = Inr result \<and>
      rowCount result = 7)"
proof -
  let ?i = "\<lparr>pd_table = ''t'', pd_database = None, pd_columns = None,
             pd_limit = Some 5, pd_where = Some ''1=1 -- ''\<rparr>"
  let ?q = "''SELECT * FROM '' @ [CHR 0x60] @ ''t'' @ [CHR 0x60] @ '' WHERE 1=1 -- LIMIT 5''"
  let ?P = "\<lambda>(sql::string) (ps::js_value list).
              if sql = ?q then Answer (replicate 7 [(''id'', JNumber 1)]) []
              else DriverError ''unknown statement''"
  let ?M = "\<lparr>pools = [crm \<mapsto> ?P], configs = Map.empty, executed = []\<rparr>"
  have q: "previewDataQuery ?i = ?q" by code_simp
  have l: "enforceRowLimit (Some 5) = 5" by (simp add: enforceRowLimit_def PREVIEW_MAX_def)
  have h: "hasLimitClause ?q" by code_simp
  then have a: "addLimitToQuery ?q (QUERY_DEFAULT + 1) = ?q" by (simp add: addLimitToQuery_def)
  have v: "valid (validate ?q)" by code_simp
  have e: "fst (executeQuery validate ?M crm ?q [] None) =
             Inr \<lparr>rows = replicate 7 [(''id'', JNumber 1)], resultFields = [],
                  rowCount = 7, truncated = False\<rparr>"
    using v a by (simp add: executeQuery_def executeWithLimit_def Let_def QUERY_DEFAULT_def)
  have ex: "\<exists>result. fst (executeQuery validate ?M crm ?q [] None) = Inr result \<and> rowCount result = 7"
    unfolding e by simp
  have a': "addLimitToQuery (previewDataQuery ?i) (QUERY_DEFAULT + 1) = previewDataQuery ?i"
    unfolding q by (rule a)
  have ex': "\<exists>result. fst (executeQuery validate ?M crm (previewDataQuery ?i) [] None) = Inr result \<and>
               rowCount result = 7"
    unfolding q by (rule ex)
  show ?thesis by (intro conjI q l a' ex')
qed

section \<open>Properties of the validator\<close>

lemma char_of_eq_iff: "char_of (n::nat) = c \<longleftrightarrow> of_char c = n mod 256"
proof
  assume "char_of n = c"
  then have "of_char (char_of n) = (of_char c :: nat)" by simp
  then show "of_char c = n mod 256" by simp
next
  assume "of_char c = n mod 256"
  then have "char_of (of_char c :: nat) = char_of (n mod 256)" by simp
  then show "char_of n = c" by simp
qed

























lemma stripLeadingComments_dropWhile:
  "stripLeadingComments (dropWhile isSpace s) = stripLeadingComments s"
  by (subst stripLeadingComments.simps [of "dropWhile isSpace s"],
      subst stripLeadingComments.simps [of s]) simp

lemma stripLeadingComments_space: "isSpace c \<Longrightarrow> stripLeadingComments (c # s) = stripLeadingComments s"
  using stripLeadingComments_dropWhile [of "c # s"] stripLeadingComments_dropWhile [of s] by simp

lemma stripLeadingComments_spaces:
  "list_all isSpace ws \<Longrightarrow> stripLeadingComments (ws @ s) = stripLeadingComments s"
  by (induction ws) (simp_all add: stripLeadingComments_space)






























section \<open>Properties of query execution\<close>

text \<open>
  Claim C7: when the validator rejects the query, \<open>executeQuery\<close> fails at once and returns
  the manager as it was: for any manager, whatever its pools are, no statement is passed
  to a pool and the pool map is not even consulted. The message is the verdict's reason
  (the fixed text \<^verbatim>\<open>Invalid query\<close> stands in for a reason that is absent or empty). This
  holds for any validator.
\<close>

theorem executeQuery_rejected:
  "\<not> valid (validator query) \<Longrightarrow>
     executeQuery validator mgr database query params limit =
       (Inl (case error (validator query) of
               None \<Rightarrow> ''Invalid query''
             | Some e \<Rightarrow> if e = [] then ''Invalid query'' else e), mgr) \<and>
     (\<forall>reason. error (validator query) = Some reason \<and> reason \<noteq> [] \<longrightarrow>
        executeQuery validator mgr database query params limit = (Inl reason, mgr))"
  by (simp add: executeQuery_def Let_def)

theorem executeQuery_rejected_witness:
  "\<not> valid (validate ''select * from t; DROP TABLE t'') \<and>
   error (validate ''select * from t; DROP TABLE t'') = Some ''forbidden keyword: DROP'' \<and>
   executeQuery validate
       \<lparr>pools = [crm \<mapsto> (\<lambda>q ps. Answer [] [])], configs = Map.empty, executed = []\<rparr> crm
       ''select * from t; DROP TABLE t'' [] None =
     (Inl ''forbidden keyword: DROP'',
      \<lparr>pools = [crm \<mapsto> (\<lambda>q ps. Answer [] [])], configs = Map.empty, executed = []\<rparr>)"
proof -
  let ?M = "\<lparr>pools = [crm \<mapsto> (\<lambda>(q::string) (ps::js_value list). Answer [] [])],
             configs = Map.empty, executed = []\<rparr>"
  have v: "validate ''select * from t; DROP TABLE t'' =
             \<lparr>valid = False, queryType = None, error = Some ''forbidden keyword: DROP''\<rparr>"
    by code_simp
  have rej: "\<not> valid (validate ''select * from t; DROP TABLE t'')"
    by (simp add: v)
  have e: "error (validate ''select * from t; DROP TABLE t'') = Some ''forbidden keyword: DROP''"
    by (simp add: v)
  have "executeQuery validate ?M crm ''select * from t; DROP TABLE t'' [] None =
          (Inl ''forbidden keyword: DROP'', ?M)"
    using executeQuery_rejected [of validate "''select * from t; DROP TABLE t''" ?M crm "[]" None,
        OF rej] e
    by simp
  with rej e show ?thesis by simp
qed

text \<open>The validator modelled from the spec always gives a reason with a rejection.\<close>

lemma validate_rejected_reason:
  "\<not> valid (validate query) \<Longrightarrow> \<exists>reason. error (validate query) = Some reason \<and> reason \<noteq> []"
  by (auto simp: validate_def Let_def split: option.splits)

section \<open>Properties of the relationship type\<close>

lemma uniqueCountQuery_valid: "valid (validate uniqueCountQuery)"
  by code_simp

text \<open>
  The classifier always answers one-to-one or one-to-many, and whenever the uniqueness
  query fails, for whatever reason (validation, a missing pool, a driver error, the
  timeout), the answer is one-to-many and no error is propagated. This holds for any
  validator.
\<close>

lemma determineRelationType_defaults:
  "(fst (determineRelationType validator mgr database t c) = OneToOne \<or>
    fst (determineRelationType validator mgr database t c) = OneToMany) \<and>
   (\<forall>e. fst (executeQuery validator mgr database uniqueCountQuery [JString t, JString c] None) = Inl e
        \<longrightarrow> fst (determineRelationType validator mgr database t c) = OneToMany)"
proof (intro conjI allI impI)
  show "fst (determineRelationType validator mgr database t c) = OneToOne \<or>
        fst (determineRelationType validator mgr database t c) = OneToMany"
    by (cases "fst (determineRelationType validator mgr database t c)") simp_all
next
  fix e
  assume "fst (executeQuery validator mgr database uniqueCountQuery [JString t, JString c] None) = Inl e"
  then show "fst (determineRelationType validator mgr database t c) = OneToMany"
    by (auto simp: determineRelationType_def split: prod.splits sum.splits)
qed

text \<open>When the query succeeds, the first row decides; no row gives one-to-many.\<close>

lemma determineRelationType_decision:
  "fst (executeQuery validator mgr database uniqueCountQuery [JString t, JString c] None) = Inr result \<Longrightarrow>
   fst (determineRelationType validator mgr database t c) =
     (case rows result of
        [] \<Rightarrow> OneToMany
      | r0 # rest \<Rightarrow>
          if numberOrZero (map_of r0 ''unique_count'') = Positive then OneToOne else OneToMany)"
  by (auto simp: determineRelationType_def split: prod.splits sum.splits list.splits)

text \<open>The statement that reaches the pool for the uniqueness query (no limit is passed).\<close>

lemma uniqueCountQuery_sent:
  "addLimitToQuery uniqueCountQuery (QUERY_DEFAULT + 1) =
     ''SELECT COUNT(*) as unique_count\<newline>    FROM INFORMATION_SCHEMA.STATISTICS\<newline>    WHERE TABLE_SCHEMA = DATABASE()\<newline>      AND TABLE_NAME = ?\<newline>      AND COLUMN_NAME = ?\<newline>      AND NON_UNIQUE = 0 LIMIT 1001''"
  by code_simp

lemma uniqueCount_positive_iff:
  "0 < uniqueCount catalogue t c \<longleftrightarrow>
   (\<exists>i \<in> set catalogue. ix_table i = t \<and> ix_unique i \<and> c \<in> set (ix_columns i))"
  by (auto simp: uniqueCount_def statisticsRows_def filter_empty_conv)

text \<open>
  With an engine that answers from its index catalogue, the classifier says one-to-one
  exactly when the column is a column of some unique index of the table, alone or together
  with other columns.
\<close>

lemma determineRelationType_catalogue:
  assumes "valid (validator uniqueCountQuery)"
    and "pools mgr database = Some (catalogueEngine catalogue)"
  shows "fst (determineRelationType validator mgr database t c) =
           (if \<exists>i \<in> set catalogue. ix_table i = t \<and> ix_unique i \<and> c \<in> set (ix_columns i)
            then OneToOne else OneToMany)"
proof -
  let ?row = "[(''unique_count'', JNumber (int (uniqueCount catalogue t c)))]"
  have "catalogueEngine catalogue (addLimitToQuery uniqueCountQuery (QUERY_DEFAULT + 1))
          [JString t, JString c] =
        Answer [?row] [\<lparr>fp_name = ''unique_count'', fp_type = Some 8\<rparr>]"
    unfolding uniqueCountQuery_sent by (simp add: catalogueEngine_def)
  then obtain result where
    r: "fst (executeQuery validator mgr database uniqueCountQuery [JString t, JString c] None) = Inr result"
    and rr: "rows result = [?row]"
    using assms by (simp add: executeQuery_def executeWithLimit_def Let_def QUERY_DEFAULT_def)
  have "numberOrZero (map_of ?row ''unique_count'') = Positive \<longleftrightarrow> 0 < uniqueCount catalogue t c"
    by (simp add: numberOrZero_def falsy_def toNumber_def signOfInt_def)
  then have "fst (determineRelationType validator mgr database t c) =
          (if 0 < uniqueCount catalogue t c then OneToOne else OneToMany)"
    using determineRelationType_decision [OF r] rr by simp
  then show ?thesis by (simp only: uniqueCount_positive_iff)
qed

text \<open>
  Claim C9 fails on a column of a composite key. The table \<^verbatim>\<open>order_items\<close> has the primary
  key \<^verbatim>\<open>(order_id, product_id)\<close> and no other index, so \<^verbatim>\<open>order_id\<close> alone carries no unique
  constraint: many items belong to one order. The uniqueness query counts the row that
  the view holds for \<^verbatim>\<open>order_id\<close> as a column of the primary key, and the classifier answers
  one-to-one where the claim, and the comment above the function, say one-to-many.
\<close>

theorem determineRelationType_composite_key:
  "\<not> carriesUniqueConstraint
       [\<lparr>ix_table = ''order_items'', ix_name = ''PRIMARY'', ix_unique = True,
         ix_columns = [''order_id'', ''product_id'']\<rparr>] ''order_items'' ''order_id'' \<and>
   uniqueCount
       [\<lparr>ix_table = ''order_items'', ix_name = ''PRIMARY'', ix_unique = True,
         ix_columns = [''order_id'', ''product_id'']\<rparr>] ''order_items'' ''order_id'' = 1 \<and>
   fst (determineRelationType validate
          \<lparr>pools = [crm \<mapsto> catalogueEngine
                      [\<lparr>ix_table = ''order_items'', ix_name = ''PRIMARY'', ix_unique = True,
                        ix_columns = [''order_id'', ''product_id'']\<rparr>]],
           configs = Map.empty, executed = []\<rparr> crm ''order_items'' ''order_id'') = OneToOne"
proof -
  let ?cat = "[\<lparr>ix_table = ''order_items'', ix_name = ''PRIMARY'', ix_unique = True,
                ix_columns = [''order_id'', ''product_id'']\<rparr>]"
  let ?mgr = "\<lparr>pools = [crm \<mapsto> catalogueEngine ?cat], configs = Map.empty, executed = []\<rparr>"
  have a: "\<not> carriesUniqueConstraint ?cat ''order_items'' ''order_id''"
    by (simp add: carriesUniqueConstraint_def)
  have b: "uniqueCount ?cat ''order_items'' ''order_id'' = 1"
    by (simp add: uniqueCount_def statisticsRows_def)
  have "fst (determineRelationType validate ?mgr crm ''order_items'' ''order_id'') =
          (if \<exists>i \<in> set ?cat. ix_table i = ''order_items'' \<and> ix_unique i \<and>
                 ''order_id'' \<in> set (ix_columns i)
           then OneToOne else OneToMany)"
    using determineRelationType_catalogue
            [where validator = validate and mgr = ?mgr and database = crm and catalogue = ?cat
               and t = "''order_items''" and c = "''order_id''"] uniqueCountQuery_valid
    by simp
  then have c: "fst (determineRelationType validate ?mgr crm ''order_items'' ''order_id'') = OneToOne"
    by simp
  show ?thesis by (intro conjI a b c)
qed

section \<open>Properties of the sanitizer\<close>

lemma keywords_letters: "kw \<in> set KEYWORDS \<Longrightarrow> lettersOnly kw"
  by (auto simp: KEYWORDS_def lettersOnly_def isLetter_def)

lemma letter_fold: "isLetter x \<Longrightarrow> upperAscii c = upperAscii x \<Longrightarrow> isLetter c"
  by (auto simp: isLetter_def upperAscii_def Let_def split: if_splits)

lemma letter_plain:
  "isLetter c \<Longrightarrow> isValueChar c \<and> \<not> isSpace c \<and> \<not> isQuote c \<and> c \<noteq> CHR ''['' \<and>
     c \<noteq> CHR ''='' \<and> c \<noteq> CHR '':''"
  by (auto simp: isLetter_def isValueChar_def isSpace_def isQuote_def)

lemma stripPrefixCI_length: "stripPrefixCI p s = Some r \<Longrightarrow> length s = length p + length r"
  by (induction p s rule: stripPrefixCI.induct) (auto split: if_splits)

lemma stripPrefixCI_suffix: "stripPrefixCI p s = Some r \<Longrightarrow> suffix r s"
  by (induction p s rule: stripPrefixCI.induct) (auto split: if_splits intro: suffix_ConsI)

lemma stripPrefixCI_head:
  "stripPrefixCI (k # ks) s = Some r \<Longrightarrow> isLetter k \<Longrightarrow> isLetter (hd s)"
  by (cases s) (auto split: if_splits intro: letter_fold)

lemma skipQuote_suffix: "suffix (skipQuote s) s"
  by (cases s) (auto simp: skipQuote_def intro: suffix_ConsI)

lemma matchKeyValue_suffix:
  assumes "matchKeyValue kw s = Some r"
  shows "suffix r s \<and> length r < length s"
proof -
  from assms obtain d r1 where sp: "stripPrefixCI kw s = Some (d # r1)"
    and r: "r = skipQuote (dropWhile isValueChar (skipQuote (dropWhile isSpace r1)))"
    by (auto simp: matchKeyValue_def Let_def split: option.splits list.splits if_splits)
  have "suffix r (dropWhile isValueChar (skipQuote (dropWhile isSpace r1)))"
    unfolding r by (rule skipQuote_suffix)
  also have "suffix \<dots> (skipQuote (dropWhile isSpace r1))" by (rule suffix_dropWhile)
  also have "suffix \<dots> (dropWhile isSpace r1)" by (rule skipQuote_suffix)
  also have "suffix \<dots> r1" by (rule suffix_dropWhile)
  finally have a: "suffix r r1" .
  then have "suffix r (d # r1)" by (rule suffix_ConsI)
  then have s: "suffix r s" using stripPrefixCI_suffix [OF sp] by (meson suffix_order.trans)
  have "length r \<le> length r1" using a by (rule suffix_length_le)
  then have "length r < length s" using stripPrefixCI_length [OF sp] by simp
  with s show ?thesis by simp
qed

lemma letterMatcher_key:
  assumes "lettersOnly kw"
  shows "letterMatcher (matchKeyValue kw)"
  unfolding letterMatcher_def
proof (intro allI impI)
  fix s r assume m: "matchKeyValue kw s = Some r"
  from assms obtain k ks where kw: "kw = k # ks" and k: "isLetter k"
    by (cases kw) (auto simp: lettersOnly_def)
  from m obtain r0 where "stripPrefixCI (k # ks) s = Some r0"
    by (auto simp: matchKeyValue_def kw split: option.splits)
  then have "isLetter (hd s)" using k by (rule stripPrefixCI_head)
  with matchKeyValue_suffix [OF m] show "suffix r s \<and> length r < length s \<and> isLetter (hd s)"
    by simp
qed

lemma urlTail_suffix: "urlTail started s = Some r \<Longrightarrow> suffix r s \<and> length r < length s"
proof (induction started s arbitrary: r rule: urlTail.induct)
  case (1 started)
  then show ?case by simp
next
  case (2 started c cs)
  show ?case
  proof (cases "urlTail True cs")
    case (Some r')
    then have "r = r'" using 2(2) by (auto split: if_splits)
    then have "suffix r cs \<and> length r < length cs" using 2(1) [of r'] 2(2) Some by (auto split: if_splits)
    then show ?thesis by (auto intro: suffix_ConsI)
  next
    case None
    then have "r = dropWhile isHostChar cs"
      using 2(2) by (auto split: if_splits list.splits)
    then show ?thesis
      using length_dropWhile_le [of isHostChar cs] suffix_dropWhile [of isHostChar cs]
      by (auto intro: suffix_ConsI)
  qed
qed

lemma letterMatcher_url: "letterMatcher matchUrl"
  unfolding letterMatcher_def
proof (intro allI impI)
  fix s r assume m: "matchUrl s = Some r"
  then obtain r0 colon r2 where sp: "stripPrefixCI ''mysql://'' s = Some r0"
    and dw: "dropWhile (\<lambda>c. c \<noteq> CHR '':'') r0 = colon # r2"
    and t: "urlTail False r2 = Some r"
    by (auto simp: matchUrl_def split: option.splits if_splits list.splits)
  have a: "suffix r r2" "length r < length r2" using urlTail_suffix [OF t] by simp_all
  have b: "suffix (colon # r2) r0"
    using suffix_dropWhile [of "\<lambda>c. c \<noteq> CHR '':''" r0] dw by simp
  then have "suffix r2 r0" by (rule suffix_ConsD)
  then have "suffix r s" using a(1) stripPrefixCI_suffix [OF sp] by (meson suffix_order.trans)
  moreover have "length r < length s"
    using a(2) suffix_length_le [OF b] stripPrefixCI_length [OF sp] by simp
  moreover have "isLetter (hd s)"
    using sp by (rule stripPrefixCI_head) (simp add: isLetter_def)
  ultimately show "suffix r s \<and> length r < length s \<and> isLetter (hd s)" by simp
qed

lemma letterMatcherD:
  "letterMatcher m \<Longrightarrow> m s = Some r \<Longrightarrow> suffix r s \<and> length r < length s \<and> isLetter (hd s)"
  unfolding letterMatcher_def by blast

lemma replaceAll_Cons:
  "letterMatcher m \<Longrightarrow>
   replaceAll m (c # cs) =
     (case m (c # cs) of None \<Rightarrow> c # replaceAll m cs | Some r \<Rightarrow> REDACTED @ replaceAll m r)"
  using letterMatcherD [of m "c # cs"] by (auto simp: replaceAll.simps(2) split: option.splits)

lemma replaceAll_nonletter:
  "letterMatcher m \<Longrightarrow> \<not> isLetter c \<Longrightarrow> replaceAll m (c # cs) = c # replaceAll m cs"
  using letterMatcherD [of m "c # cs"]
  by (cases "m (c # cs)") (auto simp: replaceAll_Cons)

lemma replaceAll_head:
  assumes "letterMatcher m" and "replaceAll m s = x # out" and "x \<noteq> CHR ''[''"
  shows "\<exists>cs. s = x # cs \<and> out = replaceAll m cs \<and> m s = None"
proof (cases s)
  case Nil
  then show ?thesis using assms(2) by simp
next
  case (Cons c cs)
  show ?thesis
  proof (cases "m (c # cs)")
    case None
    then show ?thesis using assms Cons by (simp add: replaceAll_Cons)
  next
    case (Some r)
    then show ?thesis using assms Cons by (simp add: replaceAll_Cons REDACTED_def)
  qed
qed

lemma replaceAll_first:
  assumes "letterMatcher m"
  shows "replaceAll m (c # cs) = c # replaceAll m cs \<or>
         (isLetter c \<and> (\<exists>out. replaceAll m (c # cs) = CHR ''['' # out))"
proof (cases "m (c # cs)")
  case None
  then show ?thesis using assms by (simp add: replaceAll_Cons)
next
  case (Some r)
  then have "isLetter c" using letterMatcherD [OF assms Some] by simp
  then show ?thesis using Some assms by (simp add: replaceAll_Cons REDACTED_def)
qed

lemma stripPrefixCI_reflect:
  assumes "letterMatcher m" and "\<forall>x \<in> set p. upperAscii x \<noteq> CHR ''[''"
    and "stripPrefixCI p (replaceAll m s) = Some r'"
  shows "\<exists>r. stripPrefixCI p s = Some r \<and> r' = replaceAll m r"
  using assms(2,3)
proof (induction p arbitrary: s)
  case Nil
  then show ?case by simp
next
  case (Cons x ps)
  from Cons.prems(2) obtain y out where ro: "replaceAll m s = y # out"
    by (cases "replaceAll m s") auto
  with Cons.prems(2) have xy: "upperAscii x = upperAscii y" and rest: "stripPrefixCI ps out = Some r'"
    by (auto split: if_splits)
  have "upperAscii y \<noteq> CHR ''[''" using Cons.prems(1) xy by simp
  then have "y \<noteq> CHR ''[''" by (auto simp: upperAscii_def)
  from replaceAll_head [OF assms(1) ro this] obtain cs where
    s: "s = y # cs" and out: "out = replaceAll m cs" by blast
  from Cons.IH [of cs] Cons.prems(1) rest out obtain r where
    "stripPrefixCI ps cs = Some r" "r' = replaceAll m r" by auto
  then show ?case using s xy by simp
qed

lemma dropWhile_space_replaceAll:
  assumes "letterMatcher m"
  shows "dropWhile isSpace (replaceAll m s) = replaceAll m (dropWhile isSpace s)"
proof (induction s)
  case Nil
  show ?case by simp
next
  case (Cons c cs)
  show ?case
  proof (cases "isSpace c")
    case True
    then have "\<not> isLetter c" using letter_plain [of c] by blast
    then show ?thesis using True Cons replaceAll_nonletter [OF assms] by simp
  next
    case False
    from replaceAll_first [OF assms, of c cs] show ?thesis
    proof
      assume "replaceAll m (c # cs) = c # replaceAll m cs"
      then show ?thesis using False by simp
    next
      assume "isLetter c \<and> (\<exists>out. replaceAll m (c # cs) = CHR ''['' # out)"
      then obtain out where "replaceAll m (c # cs) = CHR ''['' # out" by blast
      then show ?thesis using False by (simp add: isSpace_def)
    qed
  qed
qed

lemma skipQuote_replaceAll:
  assumes "letterMatcher m"
  shows "skipQuote (replaceAll m s) = replaceAll m (skipQuote s)"
proof (cases s)
  case Nil
  then show ?thesis by (simp add: skipQuote_def)
next
  case (Cons c cs)
  show ?thesis
  proof (cases "isQuote c")
    case True
    then have "\<not> isLetter c" using letter_plain [of c] by blast
    then show ?thesis using True Cons replaceAll_nonletter [OF assms] by (simp add: skipQuote_def)
  next
    case False
    from replaceAll_first [OF assms, of c cs] show ?thesis
    proof
      assume "replaceAll m (c # cs) = c # replaceAll m cs"
      then show ?thesis using False Cons by (simp add: skipQuote_def)
    next
      assume "isLetter c \<and> (\<exists>out. replaceAll m (c # cs) = CHR ''['' # out)"
      then obtain out where "replaceAll m (c # cs) = CHR ''['' # out" by blast
      then show ?thesis using False Cons by (simp add: skipQuote_def isQuote_def)
    qed
  qed
qed

lemma value_head_reflect:
  assumes "letterMatcher m" and "takeWhile isValueChar (replaceAll m s) \<noteq> []"
  shows "takeWhile isValueChar s \<noteq> []"
proof (cases s)
  case Nil
  then show ?thesis using assms(2) by simp
next
  case (Cons c cs)
  from replaceAll_first [OF assms(1), of c cs] show ?thesis
  proof
    assume "replaceAll m (c # cs) = c # replaceAll m cs"
    then show ?thesis using assms(2) Cons by (auto split: if_splits)
  next
    assume "isLetter c \<and> (\<exists>out. replaceAll m (c # cs) = CHR ''['' # out)"
    then have "isValueChar c" using letter_plain [of c] by blast
    then show ?thesis using Cons by simp
  qed
qed

lemma matchKeyValue_reflect:
  assumes "letterMatcher m" and "\<forall>x \<in> set kw. upperAscii x \<noteq> CHR ''[''"
    and "matchKeyValue kw (replaceAll m s) \<noteq> None"
  shows "matchKeyValue kw s \<noteq> None"
proof -
  from assms(3) obtain d r1' where sp': "stripPrefixCI kw (replaceAll m s) = Some (d # r1')"
    and d: "d = CHR ''='' \<or> d = CHR '':''"
    and v': "takeWhile isValueChar (skipQuote (dropWhile isSpace r1')) \<noteq> []"
    by (auto simp: matchKeyValue_def Let_def split: option.splits list.splits if_splits)
  from stripPrefixCI_reflect [OF assms(1,2) sp'] obtain r0 where
    sp: "stripPrefixCI kw s = Some r0" and r0: "d # r1' = replaceAll m r0" by blast
  have "d \<noteq> CHR ''[''" using d by auto
  from replaceAll_head [OF assms(1) r0 [symmetric] this] obtain r1 where
    r0': "r0 = d # r1" and r1: "r1' = replaceAll m r1" by blast
  have "skipQuote (dropWhile isSpace r1') = replaceAll m (skipQuote (dropWhile isSpace r1))"
    unfolding r1 by (simp add: dropWhile_space_replaceAll [OF assms(1)] skipQuote_replaceAll [OF assms(1)])
  with v' have "takeWhile isValueChar (skipQuote (dropWhile isSpace r1)) \<noteq> []"
    using value_head_reflect [OF assms(1)] by simp
  then show ?thesis using sp r0' d by (auto simp: matchKeyValue_def Let_def)
qed


lemma keywords_no_bracket: "kw \<in> set KEYWORDS \<Longrightarrow> \<forall>x \<in> set kw. upperAscii x \<noteq> CHR ''[''"
  by (auto simp: KEYWORDS_def upperAscii_def char_of_eq_iff)

lemma marker_inert:
  assumes "kw \<in> set KEYWORDS"
  shows "replaceAll (matchKeyValue kw) (REDACTED @ x) = REDACTED @ replaceAll (matchKeyValue kw) x"
proof -
  have m1: "matchKeyValue kw (c # y) = None" if "c \<in> set ''[REDAC]''" for c y
    using that assms
    by (auto simp: KEYWORDS_def matchKeyValue_def upperAscii_def char_of_eq_iff)
  have m2: "matchKeyValue kw (CHR ''T'' # CHR ''E'' # z) = None" for z
    using assms
    by (auto simp: KEYWORDS_def matchKeyValue_def upperAscii_def char_of_eq_iff)
  show ?thesis
    unfolding REDACTED_def
    by (simp add: replaceAll_Cons [OF letterMatcher_key [OF keywords_letters [OF assms]]] m1 m2)
qed

lemma fixpoint_Cons:
  assumes "letterMatcher m" and "replaceAll m (c # cs) = c # cs"
  shows "m (c # cs) = None \<and> replaceAll m cs = cs"
proof (cases "m (c # cs)")
  case None
  then show ?thesis using assms by (simp add: replaceAll_Cons)
next
  case (Some r)
  then have "isLetter c" using letterMatcherD [OF assms(1) Some] by simp
  then have "c \<noteq> CHR ''[''" using letter_plain by blast
  then show ?thesis using assms Some by (simp add: replaceAll_Cons REDACTED_def)
qed

lemma fixpoint_suffix:
  assumes "letterMatcher m"
  shows "replaceAll m s = s \<Longrightarrow> suffix r s \<Longrightarrow> replaceAll m r = r"
proof (induction s)
  case Nil
  then show ?case by simp
next
  case (Cons c cs)
  from Cons.prems(2) consider "r = c # cs" | "suffix r cs" by (auto simp: suffix_Cons)
  then show ?case
  proof cases
    case 1
    then show ?thesis using Cons.prems(1) by simp
  next
    case 2
    then show ?thesis using Cons.IH fixpoint_Cons [OF assms Cons.prems(1)] by simp
  qed
qed

lemma redact_preserves_fixpoint:
  assumes "letterMatcher m" and "kw \<in> set KEYWORDS"
  shows "replaceAll (matchKeyValue kw) s = s \<Longrightarrow>
         replaceAll (matchKeyValue kw) (replaceAll m s) = replaceAll m s"
proof (induction s rule: length_induct)
  case (1 s)
  let ?R = "replaceAll m"
  let ?K = "replaceAll (matchKeyValue kw)"
  note lk = letterMatcher_key [OF keywords_letters [OF assms(2)]]
    and nb = keywords_no_bracket [OF assms(2)]
  show ?case
  proof (cases s)
    case Nil
    then show ?thesis by simp
  next
    case (Cons c cs)
    from fixpoint_Cons [OF lk] 1(2) Cons
    have none: "matchKeyValue kw (c # cs) = None" and fcs: "?K cs = cs" by simp_all
    show ?thesis
    proof (cases "m (c # cs)")
      case None
      have "matchKeyValue kw (?R (c # cs)) = None"
        using matchKeyValue_reflect [OF assms(1) nb, of "c # cs"] none by blast
      moreover have rs: "?R (c # cs) = c # ?R cs" using None assms(1) by (simp add: replaceAll_Cons)
      ultimately have "?K (c # ?R cs) = c # ?K (?R cs)" using lk by (simp add: replaceAll_Cons)
      moreover have "?K (?R cs) = ?R cs" using 1(1) fcs Cons by simp
      ultimately show ?thesis using rs Cons by simp
    next
      case (Some r)
      from letterMatcherD [OF assms(1) Some] have sr: "suffix r (c # cs)" and "length r < length s"
        using Cons by simp_all
      moreover have "?K r = r" using fixpoint_suffix [OF lk _ sr] 1(2) Cons by simp
      ultimately have "?K (?R r) = ?R r" using 1(1) by simp
      moreover have "?R (c # cs) = REDACTED @ ?R r" using Some assms(1) by (simp add: replaceAll_Cons)
      ultimately show ?thesis using Cons marker_inert [OF assms(2)] by simp
    qed
  qed
qed

lemma redact_idem:
  assumes "kw \<in> set KEYWORDS"
  shows "replaceAll (matchKeyValue kw) (replaceAll (matchKeyValue kw) s) = replaceAll (matchKeyValue kw) s"
proof (induction s rule: length_induct)
  case (1 s)
  let ?R = "replaceAll (matchKeyValue kw)"
  note lk = letterMatcher_key [OF keywords_letters [OF assms]] and nb = keywords_no_bracket [OF assms]
  show ?case
  proof (cases s)
    case Nil
    then show ?thesis by simp
  next
    case (Cons c cs)
    show ?thesis
    proof (cases "matchKeyValue kw (c # cs)")
      case None
      then have "matchKeyValue kw (?R (c # cs)) = None"
        using matchKeyValue_reflect [OF lk nb, of "c # cs"] by blast
      moreover have rs: "?R (c # cs) = c # ?R cs" using None lk by (simp add: replaceAll_Cons)
      ultimately have "?R (c # ?R cs) = c # ?R (?R cs)" using lk by (simp add: replaceAll_Cons)
      moreover have "?R (?R cs) = ?R cs" using 1 Cons by simp
      ultimately show ?thesis using rs Cons by simp
    next
      case (Some r)
      then have "length r < length s" using letterMatcherD [OF lk Some] Cons by simp
      then have "?R (?R r) = ?R r" using 1 by simp
      moreover have "?R (c # cs) = REDACTED @ ?R r" using Some lk by (simp add: replaceAll_Cons)
      ultimately show ?thesis using Cons marker_inert [OF assms] by simp
    qed
  qed
qed

lemma stage_snoc:
  "foldl (\<lambda>sanitized kw. replaceAll (matchKeyValue kw) sanitized) x (ks @ [k]) =
   replaceAll (matchKeyValue k) (foldl (\<lambda>sanitized kw. replaceAll (matchKeyValue kw) sanitized) x ks)"
  by simp

lemma stage_fixpoints:
  assumes "set ks \<subseteq> set KEYWORDS"
  shows "\<forall>k \<in> set ks. replaceAll (matchKeyValue k)
            (foldl (\<lambda>sanitized kw. replaceAll (matchKeyValue kw) sanitized) x ks) =
            foldl (\<lambda>sanitized kw. replaceAll (matchKeyValue kw) sanitized) x ks"
  using assms
proof (induction ks rule: rev_induct)
  case Nil
  show ?case by simp
next
  case (snoc k ks)
  let ?F = "foldl (\<lambda>sanitized kw. replaceAll (matchKeyValue kw) sanitized) x ks"
  from snoc.prems have k: "k \<in> set KEYWORDS" and ks: "set ks \<subseteq> set KEYWORDS" by simp_all
  have ih: "\<forall>k' \<in> set ks. replaceAll (matchKeyValue k') ?F = ?F" using snoc.IH [OF ks] .
  show ?case
  proof
    fix k' assume "k' \<in> set (ks @ [k])"
    then consider "k' = k" | "k' \<in> set ks" by auto
    then show "replaceAll (matchKeyValue k')
            (foldl (\<lambda>sanitized kw. replaceAll (matchKeyValue kw) sanitized) x (ks @ [k])) =
            foldl (\<lambda>sanitized kw. replaceAll (matchKeyValue kw) sanitized) x (ks @ [k])"
    proof cases
      case 1
      then show ?thesis unfolding stage_snoc using redact_idem [OF k] by simp
    next
      case 2
      then have k': "k' \<in> set KEYWORDS" using ks by auto
      from ih 2 have "replaceAll (matchKeyValue k') ?F = ?F" by simp
      then show ?thesis unfolding stage_snoc
        by (rule redact_preserves_fixpoint [OF letterMatcher_key [OF keywords_letters [OF k]] k'])
    qed
  qed
qed

lemma stage_of_fixpoint:
  "\<forall>k \<in> set ks. replaceAll (matchKeyValue k) y = y \<Longrightarrow>
   foldl (\<lambda>sanitized kw. replaceAll (matchKeyValue kw) sanitized) y ks = y"
  by (induction ks) simp_all

lemma keyValueStage_idem: "keyValueStage (keyValueStage x) = keyValueStage x"
  unfolding keyValueStage_def
  by (rule stage_of_fixpoint) (rule stage_fixpoints, simp)

lemma keyValueStage_fixpoint:
  assumes "kw \<in> set KEYWORDS"
  shows "replaceAll (matchKeyValue kw) (keyValueStage x) = keyValueStage x"
  using stage_fixpoints [of KEYWORDS x] assms unfolding keyValueStage_def by simp

lemma url_stage_keeps_fixpoint:
  "keyValueStage (replaceAll matchUrl (keyValueStage x)) = replaceAll matchUrl (keyValueStage x)"
  unfolding keyValueStage_def [of "replaceAll matchUrl (keyValueStage x)"]
proof (rule stage_of_fixpoint, rule ballI)
  fix k assume k: "k \<in> set KEYWORDS"
  show "replaceAll (matchKeyValue k) (replaceAll matchUrl (keyValueStage x)) =
        replaceAll matchUrl (keyValueStage x)"
    by (rule redact_preserves_fixpoint [OF letterMatcher_url k]) (rule keyValueStage_fixpoint [OF k])
qed

lemma sanitizeMessage_stages: "sanitizeMessage x = replaceAll matchUrl (keyValueStage x)"
  by (simp add: sanitizeMessage_def SENSITIVE_PATTERNS_def keyValueStage_def KEYWORDS_def)


lemma url_no_bracket: "\<forall>x \<in> set ''mysql://''. upperAscii x \<noteq> CHR ''[''"
  by (simp add: upperAscii_def char_of_eq_iff)

lemma countCI_suffix: "suffix r s \<Longrightarrow> countCI pat r \<le> countCI pat s"
proof (induction s)
  case Nil
  then show ?case by simp
next
  case (Cons c cs)
  from Cons.prems consider "r = c # cs" | "suffix r cs" by (auto simp: suffix_Cons)
  then show ?case
  proof cases
    case 1
    then show ?thesis by simp
  next
    case 2
    then show ?thesis using Cons.IH by simp
  qed
qed

lemma countCI_marker: "countCI ''mysql://'' (REDACTED @ y) = countCI ''mysql://'' y"
  by (simp add: REDACTED_def upperAscii_def char_of_eq_iff)

lemma redact_count_le:
  assumes "letterMatcher m"
  shows "countCI ''mysql://'' (replaceAll m s) \<le> countCI ''mysql://'' s"
proof (induction s rule: length_induct)
  case (1 s)
  let ?R = "replaceAll m"
  show ?case
  proof (cases s)
    case Nil
    then show ?thesis by simp
  next
    case (Cons c cs)
    show ?thesis
    proof (cases "m (c # cs)")
      case None
      then have rs: "?R (c # cs) = c # ?R cs" using assms by (simp add: replaceAll_Cons)
      have here: "stripPrefixCI ''mysql://'' (c # cs) = None \<Longrightarrow>
                  stripPrefixCI ''mysql://'' (c # ?R cs) = None"
      proof (cases "stripPrefixCI ''mysql://'' (?R (c # cs))")
        case (Some r')
        assume n: "stripPrefixCI ''mysql://'' (c # cs) = None"
        from stripPrefixCI_reflect [OF assms url_no_bracket Some] n show ?thesis by auto
      qed (simp add: rs)
      have "countCI ''mysql://'' (?R cs) \<le> countCI ''mysql://'' cs" using 1 Cons by simp
      then have "countCI ''mysql://'' (c # ?R cs) \<le> countCI ''mysql://'' (c # cs)"
        using here by (cases "stripPrefixCI ''mysql://'' (c # cs)") auto
      then show ?thesis using rs Cons by simp
    next
      case (Some r)
      from letterMatcherD [OF assms Some] have sr: "suffix r (c # cs)" and l: "length r < length s"
        using Cons by simp_all
      have "countCI ''mysql://'' (?R r) \<le> countCI ''mysql://'' r" using 1 l by simp
      also have "\<dots> \<le> countCI ''mysql://'' (c # cs)" using sr by (rule countCI_suffix)
      finally have "countCI ''mysql://'' (REDACTED @ ?R r) \<le> countCI ''mysql://'' (c # cs)"
        by (simp only: countCI_marker)
      moreover have "?R (c # cs) = REDACTED @ ?R r" using Some assms by (simp add: replaceAll_Cons)
      ultimately show ?thesis using Cons by simp
    qed
  qed
qed

lemma stage_count_le:
  "set ks \<subseteq> set KEYWORDS \<Longrightarrow>
   countCI ''mysql://'' (foldl (\<lambda>sanitized kw. replaceAll (matchKeyValue kw) sanitized) x ks)
     \<le> countCI ''mysql://'' x"
proof (induction ks arbitrary: x)
  case Nil
  show ?case by simp
next
  case (Cons k ks)
  then have k: "k \<in> set KEYWORDS" and ks: "set ks \<subseteq> set KEYWORDS" by simp_all
  have "countCI ''mysql://'' (foldl (\<lambda>sanitized kw. replaceAll (matchKeyValue kw) sanitized)
          (replaceAll (matchKeyValue k) x) ks) \<le> countCI ''mysql://'' (replaceAll (matchKeyValue k) x)"
    by (rule Cons.IH [OF ks])
  also have "\<dots> \<le> countCI ''mysql://'' x"
    by (rule redact_count_le [OF letterMatcher_key [OF keywords_letters [OF k]]])
  finally show ?case by simp
qed

lemma keyValueStage_count_le: "countCI ''mysql://'' (keyValueStage x) \<le> countCI ''mysql://'' x"
  unfolding keyValueStage_def by (rule stage_count_le) simp

lemma matchUrl_needs_prefix: "matchUrl s = Some r \<Longrightarrow> stripPrefixCI ''mysql://'' s \<noteq> None"
  by (auto simp: matchUrl_def split: option.splits)

lemma url_stage_inert: "countCI ''mysql://'' s = 0 \<Longrightarrow> replaceAll matchUrl s = s"
proof (induction s)
  case Nil
  show ?case by simp
next
  case (Cons c cs)
  then have n: "stripPrefixCI ''mysql://'' (c # cs) = None" and "countCI ''mysql://'' cs = 0"
    by (auto split: if_splits)
  then have "matchUrl (c # cs) = None"
    using matchUrl_needs_prefix [of "c # cs"] by (cases "matchUrl (c # cs)") auto
  then show ?case using Cons \<open>countCI ''mysql://'' cs = 0\<close> by (simp add: replaceAll.simps(2))
qed

lemma url_stage_once:
  "countCI ''mysql://'' s \<le> 1 \<Longrightarrow>
   replaceAll matchUrl s = s \<or> countCI ''mysql://'' (replaceAll matchUrl s) = 0"
proof (induction s)
  case Nil
  show ?case by simp
next
  case (Cons c cs)
  let ?R = "replaceAll matchUrl"
  note lu = letterMatcher_url
  show ?case
  proof (cases "matchUrl (c # cs)")
    case (Some r)
    then have "stripPrefixCI ''mysql://'' (c # cs) \<noteq> None" by (rule matchUrl_needs_prefix)
    then have cs0: "countCI ''mysql://'' cs = 0" using Cons.prems by (auto split: if_splits)
    from letterMatcherD [OF lu Some] have "suffix r (c # cs)" "length r < length (c # cs)" by simp_all
    then have "suffix r cs" by (auto simp: suffix_Cons)
    then have r0: "countCI ''mysql://'' r = 0" using countCI_suffix [of r cs "''mysql://''"] cs0 by simp
    then have "?R r = r" by (rule url_stage_inert)
    then have "?R (c # cs) = REDACTED @ r" using Some lu by (simp add: replaceAll_Cons)
    then show ?thesis using r0 by (simp only: countCI_marker) simp
  next
    case None
    then have rs: "?R (c # cs) = c # ?R cs" using lu by (simp add: replaceAll_Cons)
    show ?thesis
    proof (cases "stripPrefixCI ''mysql://'' (c # cs)")
      case (Some r0)
      then have "countCI ''mysql://'' cs = 0" using Cons.prems by (auto split: if_splits)
      then have "?R cs = cs" by (rule url_stage_inert)
      then show ?thesis using rs by simp
    next
      case n: None
      then have le: "countCI ''mysql://'' cs \<le> 1" using Cons.prems by simp
      from Cons.IH [OF le] show ?thesis
      proof
        assume "?R cs = cs"
        then show ?thesis using rs by simp
      next
        assume z: "countCI ''mysql://'' (?R cs) = 0"
        have "stripPrefixCI ''mysql://'' (c # ?R cs) = None"
        proof (cases "stripPrefixCI ''mysql://'' (?R (c # cs))")
          case (Some r')
          from stripPrefixCI_reflect [OF lu url_no_bracket Some] n show ?thesis by auto
        qed (simp add: rs)
        then have "countCI ''mysql://'' (c # ?R cs) = 0" using z by simp
        then show ?thesis using rs by simp
      qed
    qed
  qed
qed

lemma url_stage_settles:
  assumes "countCI ''mysql://'' x \<le> 1"
  shows "replaceAll matchUrl (replaceAll matchUrl (keyValueStage x)) =
         replaceAll matchUrl (keyValueStage x)"
proof -
  have "countCI ''mysql://'' (keyValueStage x) \<le> 1"
    using keyValueStage_count_le [of x] assms by simp
  from url_stage_once [OF this] show ?thesis
  proof
    assume "replaceAll matchUrl (keyValueStage x) = keyValueStage x"
    then show ?thesis by simp
  next
    assume "countCI ''mysql://'' (replaceAll matchUrl (keyValueStage x)) = 0"
    then show ?thesis by (rule url_stage_inert)
  qed
qed

text \<open>
  Claim C4, as the code has it: the five key-value redactions together are idempotent on
  every text, \<open>sanitizeMessage\<close> is these followed by the connection-URL redaction, its
  result is left alone by the five key-value redactions, and \<open>sanitizeMessage\<close> is
  idempotent on every text in which \<^verbatim>\<open>mysql://\<close> occurs at most once (in any letter case),
  whatever else the text holds.
\<close>

theorem sanitizeMessage_idempotent_single_url:
  "keyValueStage (keyValueStage x) = keyValueStage x \<and>
   sanitizeMessage x = replaceAll matchUrl (keyValueStage x) \<and>
   keyValueStage (sanitizeMessage x) = sanitizeMessage x \<and>
   (countCI ''mysql://'' x \<le> 1 \<longrightarrow> sanitizeMessage (sanitizeMessage x) = sanitizeMessage x)"
proof (intro conjI impI)
  show "keyValueStage (keyValueStage x) = keyValueStage x" by (rule keyValueStage_idem)
  show "sanitizeMessage x = replaceAll matchUrl (keyValueStage x)" by (rule sanitizeMessage_stages)
  show k: "keyValueStage (sanitizeMessage x) = sanitizeMessage x"
    unfolding sanitizeMessage_stages by (rule url_stage_keeps_fixpoint)
  assume "countCI ''mysql://'' x \<le> 1"
  then have "replaceAll matchUrl (sanitizeMessage x) = sanitizeMessage x"
    unfolding sanitizeMessage_stages by (rule url_stage_settles)
  then show "sanitizeMessage (sanitizeMessage x) = sanitizeMessage x"
    unfolding sanitizeMessage_stages [of "sanitizeMessage x"] k .
qed

theorem sanitizeMessage_idempotent_single_url_witness:
  "countCI ''mysql://'' ''mysql://root:pw@db.local refused\<newline>key='a b' (using password: YES)'' = 1 \<and>
   sanitizeMessage ''mysql://root:pw@db.local refused\<newline>key='a b' (using password: YES)'' =
     ''[REDACTED] refused\<newline>[REDACTED] b' (using [REDACTED]'' \<and>
   sanitizeMessage (sanitizeMessage ''mysql://root:pw@db.local refused\<newline>key='a b' (using password: YES)'') =
     ''[REDACTED] refused\<newline>[REDACTED] b' (using [REDACTED]''"
proof -
  let ?x = "''mysql://root:pw@db.local refused\<newline>key='a b' (using password: YES)''"
  have c: "countCI ''mysql://'' ?x = 1" by code_simp
  have v: "sanitizeMessage ?x = ''[REDACTED] refused\<newline>[REDACTED] b' (using [REDACTED]''"
    by code_simp
  have le: "countCI ''mysql://'' ?x \<le> 1" unfolding c by simp
  have "sanitizeMessage (sanitizeMessage ?x) = sanitizeMessage ?x"
    using sanitizeMessage_idempotent_single_url [of ?x] le by blast
  with c v show ?thesis by simp
qed

text \<open>
  The claim as it was stated fails on a text in which \<^verbatim>\<open>mysql://\<close> occurs twice: \<^verbatim>\<open>.+\<close> does
  not cross a line terminator but \<^verbatim>\<open>[^:]+\<close> does, so the first \<^verbatim>\<open>mysql://\<close> below matches only
  after the second one has been replaced, and a second pass redacts more than the first.
\<close>

theorem sanitizeMessage_not_idempotent_counterexample:
  "countCI ''mysql://'' ''mysql://amysql://u\<newline>:p@h\<newline>:x@y'' = 2 \<and>
   sanitizeMessage ''mysql://amysql://u\<newline>:p@h\<newline>:x@y'' = ''mysql://a[REDACTED]\<newline>:x@y'' \<and>
   sanitizeMessage (sanitizeMessage ''mysql://amysql://u\<newline>:p@h\<newline>:x@y'') = ''[REDACTED]'' \<and>
   sanitizeMessage (sanitizeMessage ''mysql://amysql://u\<newline>:p@h\<newline>:x@y'') \<noteq>
     sanitizeMessage ''mysql://amysql://u\<newline>:p@h\<newline>:x@y''"
  by code_simp

section \<open>Properties of the connection error message\<close>

text \<open>
  Claim C6, as the code has it: the message of a connection failure is the fixed prefix,
  the logical name, host, port and schema of the configuration, and the sanitised driver
  text. It contains each of these four fields, and it does not depend on the configured
  password: the field is never read. \<open>testConnection\<close> throws exactly this message when the
  pool has a configuration and the driver fails. What the sanitiser leaves of the driver
  text is in the message as it is.
\<close>

theorem createConnectionErrorMessage_spec:
  "createConnectionErrorMessage config e =
     ''Database connection failed: '' @ cfg_name config @ ''@'' @ cfg_host config @ '':'' @
     numberToString (cfg_port config) @ ''/'' @ cfg_database config @ '' - '' @ sanitizeMessage e \<and>
   sublist (cfg_name config) (createConnectionErrorMessage config e) \<and>
   sublist (cfg_host config) (createConnectionErrorMessage config e) \<and>
   sublist (numberToString (cfg_port config)) (createConnectionErrorMessage config e) \<and>
   sublist (cfg_database config) (createConnectionErrorMessage config e) \<and>
   createConnectionErrorMessage (config\<lparr>cfg_password := pw\<rparr>) e = createConnectionErrorMessage config e \<and>
   (\<forall>p. pools mgr database = Some p \<and> configs mgr database = Some config \<longrightarrow>
        testConnection mgr database (Some e) = Inl (createConnectionErrorMessage config e))"
proof -
  let ?m = "createConnectionErrorMessage config e"
  have eq: "?m = ''Database connection failed: '' @ cfg_name config @ ''@'' @ cfg_host config @ '':'' @
     numberToString (cfg_port config) @ ''/'' @ cfg_database config @ '' - '' @ sanitizeMessage e"
    by (simp add: createConnectionErrorMessage_def)
  have n: "sublist (cfg_name config) ?m"
    unfolding eq sublist_def
    by (rule exI [of _ "''Database connection failed: ''"], rule exI) simp
  have h: "sublist (cfg_host config) ?m"
    unfolding eq sublist_def
    by (rule exI [of _ "''Database connection failed: '' @ cfg_name config @ ''@''"], rule exI) simp
  have p: "sublist (numberToString (cfg_port config)) ?m"
    unfolding eq sublist_def
    by (rule exI [of _ "''Database connection failed: '' @ cfg_name config @ ''@'' @
          cfg_host config @ '':''"], rule exI) simp
  have d: "sublist (cfg_database config) ?m"
    unfolding eq sublist_def
    by (rule exI [of _ "''Database connection failed: '' @ cfg_name config @ ''@'' @
          cfg_host config @ '':'' @ numberToString (cfg_port config) @ ''/''"], rule exI) simp
  have ni: "createConnectionErrorMessage (config\<lparr>cfg_password := pw\<rparr>) e = ?m"
    by (simp add: createConnectionErrorMessage_def)
  have tc: "\<forall>p. pools mgr database = Some p \<and> configs mgr database = Some config \<longrightarrow>
        testConnection mgr database (Some e) = Inl ?m"
    by (simp add: testConnection_def)
  show ?thesis by (intro conjI eq n h p d ni tc)
qed

theorem createConnectionErrorMessage_spec_witness:
  "testConnection
     \<lparr>pools = [crm \<mapsto> (\<lambda>q ps. Answer [] [])],
      configs = [crm \<mapsto> \<lparr>cfg_name = ''crm'', cfg_host = ''db1'', cfg_port = 3306,
                 cfg_user = ''root'', cfg_password = ''secret123'', cfg_database = ''shop''\<rparr>],
      executed = []\<rparr> crm (Some ''access denied, password=secret123'')
     = Inl ''Database connection failed: crm@db1:3306/shop - access denied, [REDACTED]'' \<and>
   sublist ''db1'' ''Database connection failed: crm@db1:3306/shop - access denied, [REDACTED]'' \<and>
   \<not> sublist ''secret123''
       ''Database connection failed: crm@db1:3306/shop - access denied, [REDACTED]''"
proof -
  let ?C = "\<lparr>cfg_name = ''crm'', cfg_host = ''db1'', cfg_port = 3306,
             cfg_user = ''root'', cfg_password = ''secret123'', cfg_database = ''shop''\<rparr>"
  let ?M = "\<lparr>pools = [crm \<mapsto> (\<lambda>(q::string) (ps::js_value list). Answer [] [])],
             configs = [crm \<mapsto> ?C], executed = []\<rparr>"
  have s: "sanitizeMessage ''access denied, password=secret123'' = ''access denied, [REDACTED]''"
    by code_simp
  have port: "numberToString 3306 = ''3306''"
    by (simp add: numberToString_def natToString.simps digitChar_def)
  have t: "testConnection ?M crm (Some ''access denied, password=secret123'')
             = Inl ''Database connection failed: crm@db1:3306/shop - access denied, [REDACTED]''"
    using createConnectionErrorMessage_spec
            [of ?C "''access denied, password=secret123''" "[]" ?M crm]
    by (simp add: s port)
  have a: "sublist ''db1'' ''Database connection failed: crm@db1:3306/shop - access denied, [REDACTED]''"
    by code_simp
  have b: "\<not> sublist ''secret123''
       ''Database connection failed: crm@db1:3306/shop - access denied, [REDACTED]''"
    by code_simp
  show ?thesis by (intro conjI t a b)
qed

text \<open>
  The claim as it was stated fails: the sanitiser looks for shapes, not for the configured
  secret, so a driver text that holds the password outside those shapes is passed on.
\<close>

theorem createConnectionErrorMessage_password_counterexample:
  "sublist ''secret123''
     (createConnectionErrorMessage
        \<lparr>cfg_name = ''crm'', cfg_host = ''db1'', cfg_port = 3306, cfg_user = ''root'',
         cfg_password = ''secret123'', cfg_database = ''shop''\<rparr>
        ''handshake with secret123 refused'')"
proof -
  have s: "sanitizeMessage ''handshake with secret123 refused'' = ''handshake with secret123 refused''"
    by code_simp
  have m: "createConnectionErrorMessage
        \<lparr>cfg_name = ''crm'', cfg_host = ''db1'', cfg_port = 3306, cfg_user = ''root'',
         cfg_password = ''secret123'', cfg_database = ''shop''\<rparr>
        ''handshake with secret123 refused''
       = ''Database connection failed: crm@db1:3306/shop - '' @ ''handshake with secret123 refused''"
    by (simp add: createConnectionErrorMessage_def s numberToString_def natToString.simps digitChar_def)
  show ?thesis unfolding m by code_simp
qed

section \<open>Properties of the row limit in the statement\<close>

lemma upperAscii_idem: "upperAscii (upperAscii c) = upperAscii c"
  by (auto simp: upperAscii_def Let_def)

lemma upperUnits_of_upper:
  "isUpperLetter p \<Longrightarrow> upperAscii c = p \<Longrightarrow> upperUnits c = [p]"
  by (auto simp: isUpperLetter_def upperAscii_def upperUnits_def Let_def split: if_splits)

lemma stripPrefixCI_toUpperCase:
  "list_all isUpperLetter kw \<Longrightarrow> stripPrefixCI kw t = Some r \<Longrightarrow> prefix kw (toUpperCase t)"
proof (induction kw t rule: stripPrefixCI.induct)
  case (1 s)
  then show ?case by simp
next
  case (2 p ps)
  then show ?case by simp
next
  case (3 p ps c cs)
  from 3(3) have eq: "upperAscii p = upperAscii c" and rest: "stripPrefixCI ps cs = Some r"
    by (auto split: if_splits)
  from 3(2) have up: "isUpperLetter p" and ups: "list_all isUpperLetter ps" by simp_all
  have "upperAscii p = p" using up by (auto simp: isUpperLetter_def upperAscii_def Let_def)
  with eq have "upperAscii c = p" by simp
  then have "upperUnits c = [p]" using up by (rule upperUnits_of_upper[rotated])
  moreover have "prefix ps (toUpperCase cs)" using 3(1) eq ups rest by simp
  ultimately show ?case by (simp add: toUpperCase_def)
qed

lemma stripPrefixCI_map_upper: "stripPrefixCI (map upperAscii m) (m @ r) = Some r"
  by (induction m) (simp_all add: upperAscii_idem)

lemma leadingKeyword_stripPrefix:
  "leadingKeyword t = kw \<Longrightarrow> stripPrefixCI kw t = Some (dropWhile isWordChar t)"
  using stripPrefixCI_map_upper [of "takeWhile isWordChar t" "dropWhile isWordChar t"]
  by (simp add: leadingKeyword_def)

lemma trim_no_leading_space: "dropWhile isSpace (trim q) = trim q"
proof (cases "dropWhile isSpace q")
  case Nil
  show ?thesis unfolding trim_def Nil by simp
next
  case (Cons x xs)
  then have nx: "\<not> isSpace x" using hd_dropWhile [of isSpace q] by auto
  have "\<exists>w. dropWhile isSpace (rev xs @ [x]) = w @ [x]"
    using nx by (cases "\<forall>y \<in> set (rev xs). isSpace y") (auto simp: dropWhile_append)
  then obtain w where "dropWhile isSpace (rev xs @ [x]) = w @ [x]" by blast
  then have "trim q = x # rev w" using Cons by (simp add: trim_def)
  then show ?thesis using nx by simp
qed


lemma stripLeadingComments_cases:
  assumes "dropWhile isSpace t = t"
  shows "stripLeadingComments t = t \<or> prefix ''--'' t \<or> prefix ''/*'' t"
  using assms by (subst stripLeadingComments.simps) (simp add: Let_def)

lemma toUpperCase_Cons: "toUpperCase (c # cs) = upperUnits c @ toUpperCase cs"
  by (simp add: toUpperCase_def)

lemma prefix_comment_upper:
  "prefix ''--'' t \<or> prefix ''/*'' t \<Longrightarrow>
   \<not> prefix ''SHOW'' (toUpperCase t) \<and> \<not> prefix ''DESCRIBE'' (toUpperCase t) \<and>
   \<not> prefix ''EXPLAIN'' (toUpperCase t)"
  by (auto simp: prefix_def toUpperCase_Cons upperUnits_def)

lemma prefix_select_upper:
  "prefix ''SELECT'' u \<Longrightarrow>
   \<not> prefix ''SHOW'' u \<and> \<not> prefix ''DESCRIBE'' u \<and> \<not> prefix ''EXPLAIN'' u"
  by (auto simp: prefix_def)

lemma find_Some_holds: "find P xs = Some x \<Longrightarrow> P x"
  by (induction xs) (auto split: if_splits)

lemma kind_of_validate:
  assumes "queryType (validate query) = Some k"
  shows "valid (validate query) \<and> leadingKeyword (normalizeQuery query) = kindName k"
proof -
  from assms have sk: "statementKind (normalizeQuery query) = Some k"
    and v: "valid (validate query)"
    by (auto simp: validate_def Let_def split: option.splits)
  from sk have "kindName k = leadingKeyword (normalizeQuery query)"
    unfolding statementKind_def by (rule find_Some_holds)
  with v show ?thesis by simp
qed

lemma select_not_exempt:
  assumes "queryType (validate query) = Some SELECT"
  shows "\<not> prefix ''SHOW'' (toUpperCase (trim query)) \<and>
         \<not> prefix ''DESCRIBE'' (toUpperCase (trim query)) \<and>
         \<not> prefix ''EXPLAIN'' (toUpperCase (trim query))"
proof -
  have lk: "leadingKeyword (normalizeQuery query) = ''SELECT''"
    using kind_of_validate [OF assms] by (simp add: kindName_def)
  consider "stripLeadingComments (trim query) = trim query"
    | "prefix ''--'' (trim query) \<or> prefix ''/*'' (trim query)"
    using stripLeadingComments_cases [OF trim_no_leading_space, of query] by blast
  then show ?thesis
  proof cases
    case 1
    then have "leadingKeyword (trim query) = ''SELECT''"
      using lk by (simp add: normalizeQuery_def)
    then have "stripPrefixCI ''SELECT'' (trim query) = Some (dropWhile isWordChar (trim query))"
      by (rule leadingKeyword_stripPrefix)
    then have "prefix ''SELECT'' (toUpperCase (trim query))"
      by (rule stripPrefixCI_toUpperCase [rotated]) (simp add: isUpperLetter_def)
    then show ?thesis by (rule prefix_select_upper)
  next
    case 2
    then show ?thesis by (rule prefix_comment_upper)
  qed
qed


lemma exempt_untouched:
  assumes "list_all isUpperLetter kw" and "kw \<in> {''SHOW'', ''DESCRIBE'', ''EXPLAIN''}"
    and "stripPrefixCI kw (trim query) = Some r"
  shows "addLimitToQuery query n = query"
proof -
  have "prefix kw (toUpperCase (trim query))"
    using assms(1,3) by (rule stripPrefixCI_toUpperCase)
  then show ?thesis using assms(2) by (auto simp: addLimitToQuery_def Let_def)
qed

text \<open>
  Claim C5, as the code has it. The statement is returned untouched when it holds an
  explicit clause \<^verbatim>\<open>LIMIT\<close> followed by white space and a digit, or when its trimmed text
  begins with SHOW, DESCRIBE or EXPLAIN in any case; this covers every statement whose
  recognised kind is one of these three and that has no leading comment. A statement whose
  recognised kind is SELECT and that holds no such clause becomes its trimmed text (not
  the original text) followed by \<^verbatim>\<open>LIMIT n\<close>. The statement passed to the pool by
  \<open>executeQuery\<close>, whatever the validator that accepted the query, is the result for
  \<open>n\<close> = effective limit + 1.
\<close>

theorem addLimitToQuery_spec:
  "(hasLimitClause query \<longrightarrow> addLimitToQuery query n = query) \<and>
   (stripPrefixCI ''SHOW'' (trim query) \<noteq> None \<or>
    stripPrefixCI ''DESCRIBE'' (trim query) \<noteq> None \<or>
    stripPrefixCI ''EXPLAIN'' (trim query) \<noteq> None \<longrightarrow> addLimitToQuery query n = query) \<and>
   (\<forall>k. queryType (validate query) = Some k \<and> k \<noteq> SELECT \<and> normalizeQuery query = trim query \<longrightarrow>
        addLimitToQuery query n = query) \<and>
   (queryType (validate query) = Some SELECT \<and> \<not> hasLimitClause query \<longrightarrow>
        addLimitToQuery query n = trim query @ '' LIMIT '' @ numberToString n) \<and>
   (\<forall>p. valid (validator query) \<and> pools mgr database = Some p \<longrightarrow>
        executed (snd (executeQuery validator mgr database query params limit)) =
          executed mgr @
          [(database,
            addLimitToQuery query ((case limit of None \<Rightarrow> QUERY_DEFAULT | Some l \<Rightarrow> l) + 1))])"
proof (intro conjI allI impI)
  assume "hasLimitClause query"
  then show "addLimitToQuery query n = query" by (simp add: addLimitToQuery_def)
next
  assume "stripPrefixCI ''SHOW'' (trim query) \<noteq> None \<or>
    stripPrefixCI ''DESCRIBE'' (trim query) \<noteq> None \<or>
    stripPrefixCI ''EXPLAIN'' (trim query) \<noteq> None"
  then consider r where "stripPrefixCI ''SHOW'' (trim query) = Some r"
    | r where "stripPrefixCI ''DESCRIBE'' (trim query) = Some r"
    | r where "stripPrefixCI ''EXPLAIN'' (trim query) = Some r"
    by auto
  then show "addLimitToQuery query n = query"
  proof cases
    case 1
    show ?thesis by (rule exempt_untouched [OF _ _ 1]) (simp_all add: isUpperLetter_def)
  next
    case 2
    show ?thesis by (rule exempt_untouched [OF _ _ 2]) (simp_all add: isUpperLetter_def)
  next
    case 3
    show ?thesis by (rule exempt_untouched [OF _ _ 3]) (simp_all add: isUpperLetter_def)
  qed
next
  fix k
  assume a: "queryType (validate query) = Some k \<and> k \<noteq> SELECT \<and> normalizeQuery query = trim query"
  then have "leadingKeyword (trim query) = kindName k"
    using kind_of_validate [of query k] by simp
  then have sp: "stripPrefixCI (kindName k) (trim query) = Some (dropWhile isWordChar (trim query))"
    by (rule leadingKeyword_stripPrefix)
  show "addLimitToQuery query n = query"
    using a by (intro exempt_untouched [OF _ _ sp]; cases k)
               (simp_all add: kindName_def isUpperLetter_def)
next
  assume a: "queryType (validate query) = Some SELECT \<and> \<not> hasLimitClause query"
  then show "addLimitToQuery query n = trim query @ '' LIMIT '' @ numberToString n"
    using select_not_exempt [of query] by (simp add: addLimitToQuery_def Let_def)
next
  fix p
  assume "valid (validator query) \<and> pools mgr database = Some p"
  then show "executed (snd (executeQuery validator mgr database query params limit)) =
          executed mgr @
          [(database,
            addLimitToQuery query ((case limit of None \<Rightarrow> QUERY_DEFAULT | Some l \<Rightarrow> l) + 1))]"
    by (simp add: executeQuery_def Let_def split: promise.splits)
qed


theorem addLimitToQuery_spec_witness:
  "hasLimitClause ''SELECT 1 limit 5'' \<and> addLimitToQuery ''SELECT 1 limit 5'' 11 = ''SELECT 1 limit 5'' \<and>
   stripPrefixCI ''SHOW'' (trim '' show tables'') \<noteq> None \<and>
   addLimitToQuery '' show tables'' 11 = '' show tables'' \<and>
   queryType (validate ''describe t'') = Some DESCRIBE \<and>
   normalizeQuery ''describe t'' = trim ''describe t'' \<and>
   addLimitToQuery ''describe t'' 11 = ''describe t'' \<and>
   queryType (validate ''/* c */ select 1'') = Some SELECT \<and> \<not> hasLimitClause ''/* c */ select 1'' \<and>
   addLimitToQuery ''/* c */ select 1'' 11 = ''/* c */ select 1 LIMIT 11'' \<and>
   executed (snd (executeQuery validate
       \<lparr>pools = [crm \<mapsto> (\<lambda>q ps. Answer [] [])], configs = Map.empty, executed = []\<rparr>
       crm ''describe t'' [] (Some 10))) = [(crm, ''describe t'')]"
proof -
  let ?M = "\<lparr>pools = [crm \<mapsto> (\<lambda>(q::string) (ps::js_value list). Answer [] [])],
             configs = Map.empty, executed = []\<rparr>"
  have h1: "hasLimitClause ''SELECT 1 limit 5''" by code_simp
  have h2: "stripPrefixCI ''SHOW'' (trim '' show tables'') \<noteq> None" by code_simp
  have h3: "queryType (validate ''describe t'') = Some DESCRIBE" by code_simp
  have h3v: "valid (validate ''describe t'')" by code_simp
  have h4: "normalizeQuery ''describe t'' = trim ''describe t''" by code_simp
  have h5: "queryType (validate ''/* c */ select 1'') = Some SELECT" by code_simp
  have h6: "\<not> hasLimitClause ''/* c */ select 1''" by code_simp
  have t: "trim ''/* c */ select 1'' = ''/* c */ select 1''" by code_simp
  have n: "numberToString 11 = ''11''"
    by (simp add: numberToString_def natToString.simps digitChar_def)
  have a1: "addLimitToQuery ''SELECT 1 limit 5'' 11 = ''SELECT 1 limit 5''"
    using addLimitToQuery_spec [where query = "''SELECT 1 limit 5''" and n = 11] h1 by blast
  have a2: "addLimitToQuery '' show tables'' 11 = '' show tables''"
    using addLimitToQuery_spec [where query = "'' show tables''" and n = 11] h2 by blast
  have a3: "addLimitToQuery ''describe t'' 11 = ''describe t''"
    using addLimitToQuery_spec [where query = "''describe t''" and n = 11] h3 h4 by blast
  have a4: "addLimitToQuery ''/* c */ select 1'' 11 = ''/* c */ select 1 LIMIT 11''"
    using addLimitToQuery_spec [where query = "''/* c */ select 1''" and n = 11] h5 h6 by (simp add: t n)
  have a5: "executed (snd (executeQuery validate ?M crm ''describe t'' [] (Some 10)))
              = [(crm, ''describe t'')]"
    using addLimitToQuery_spec
            [where query = "''describe t''" and n = 11 and validator = validate and mgr = ?M
               and database = crm and params = "[]" and limit = "Some 10"] h3v a3
    by simp
  show ?thesis by (intro conjI h1 a1 h2 a2 h3 h4 a3 h5 h6 a4 a5)
qed

text \<open>
  The claim as it was stated fails where the text has white space around it: the clause
  is appended to the trimmed text. (A statement of kind SHOW behind a leading comment is
  not recognised by the prefix test either and gets the clause.)
\<close>

theorem addLimitToQuery_original_text_counterexample:
  "queryType (validate '' SELECT 1 '') = Some SELECT \<and> \<not> hasLimitClause '' SELECT 1 '' \<and>
   addLimitToQuery '' SELECT 1 '' 11 = ''SELECT 1 LIMIT 11'' \<and>
   addLimitToQuery '' SELECT 1 '' 11 \<noteq> '' SELECT 1 '' @ '' LIMIT 11'' \<and>
   queryType (validate ''/* c */ SHOW TABLES'') = Some SHOW \<and>
   addLimitToQuery ''/* c */ SHOW TABLES'' 11 \<noteq> ''/* c */ SHOW TABLES''"
  by code_simp

section \<open>Properties of the result of a query\<close>

lemma executeQuery_success_shape:
  assumes "executeQuery validator mgr database query params limit = (Inr res, mgr')"
  shows "\<exists>p rs fs. pools mgr database = Some p \<and>
           p (addLimitToQuery query ((case limit of None \<Rightarrow> QUERY_DEFAULT | Some l \<Rightarrow> l) + 1)) params
             = Answer rs fs \<and>
           truncated res = (int (length rs) > (case limit of None \<Rightarrow> QUERY_DEFAULT | Some l \<Rightarrow> l)) \<and>
           rows res = (if truncated res
                       then sliceFromStart rs (case limit of None \<Rightarrow> QUERY_DEFAULT | Some l \<Rightarrow> l)
                       else rs) \<and>
           rowCount res = length (rows res)"
  using assms
  by (auto simp: executeQuery_def executeWithLimit_def Let_def
           split: if_splits option.splits promise.splits driver_reply.splits)

text \<open>
  Claim C2, as the code has it: for every successful result of \<open>executeQuery\<close> (with any validator) under an
  effective limit that is not negative, \<open>rowCount\<close> is the number of rows returned and is
  at most the limit; the rows are the first \<open>limit\<close> rows of the engine's answer to the
  statement that was sent, and \<open>truncated\<close> holds exactly when that answer had at least one
  more row than was returned. When the engine's answer is the first \<open>limit + 1\<close> rows of a
  source (it honours the injected clause), the rows returned are the first \<open>limit\<close> rows of
  the source and \<open>truncated\<close> holds exactly when the source had at least one more row.
\<close>

theorem executeQuery_result_invariant:
  assumes "executeQuery validator mgr database query params limit = (Inr res, mgr')"
    and "effectiveLimit = (case limit of None \<Rightarrow> QUERY_DEFAULT | Some l \<Rightarrow> l)"
    and "0 \<le> effectiveLimit"
  shows "rowCount res = length (rows res) \<and> int (rowCount res) \<le> effectiveLimit \<and>
     (\<exists>p rs fs. pools mgr database = Some p \<and>
        p (addLimitToQuery query (effectiveLimit + 1)) params = Answer rs fs \<and>
        rows res = take (nat effectiveLimit) rs \<and>
        (truncated res \<longleftrightarrow> length (rows res) < length rs) \<and>
        (\<forall>src. rs = take (nat (effectiveLimit + 1)) src \<longrightarrow>
           rows res = take (nat effectiveLimit) src \<and>
           (truncated res \<longleftrightarrow> length (rows res) < length src)))"
proof -
  from executeQuery_success_shape [OF assms(1)] assms(2)
  obtain p rs fs where p: "pools mgr database = Some p"
    and ans: "p (addLimitToQuery query (effectiveLimit + 1)) params = Answer rs fs"
    and tr: "truncated res = (int (length rs) > effectiveLimit)"
    and rw: "rows res = (if truncated res then sliceFromStart rs effectiveLimit else rs)"
    and rc: "rowCount res = length (rows res)"
    by auto
  have rows_take: "rows res = take (nat effectiveLimit) rs"
    using rw tr assms(3) by (auto simp: sliceFromStart_def)
  have le: "int (rowCount res) \<le> effectiveLimit"
    using rc rows_take assms(3) by simp
  have tr_iff: "truncated res \<longleftrightarrow> length (rows res) < length rs"
    using tr rows_take assms(3) by auto
  have src: "\<forall>src. rs = take (nat (effectiveLimit + 1)) src \<longrightarrow>
           rows res = take (nat effectiveLimit) src \<and>
           (truncated res \<longleftrightarrow> length (rows res) < length src)"
  proof (intro allI impI)
    fix src assume s: "rs = take (nat (effectiveLimit + 1)) src"
    have rs: "rows res = take (nat effectiveLimit) src"
      using rows_take s assms(3) by (simp add: min_def)
    moreover have "truncated res \<longleftrightarrow> length (rows res) < length src"
    proof -
      have l: "length rs = min (length src) (nat (effectiveLimit + 1))"
        using s by simp
      have "truncated res \<longleftrightarrow> nat effectiveLimit < length src"
        using tr l assms(3) by (simp add: min_def) linarith
      moreover have "length (rows res) = min (length src) (nat effectiveLimit)"
        using rs by simp
      ultimately show ?thesis by (simp add: min_def)
    qed
    ultimately show "rows res = take (nat effectiveLimit) src \<and>
           (truncated res \<longleftrightarrow> length (rows res) < length src)" by simp
  qed
  show ?thesis
    using rc le p ans rows_take tr_iff src by blast
qed


theorem executeQuery_result_invariant_witness:
  "executeQuery validate
     \<lparr>pools = [crm \<mapsto> (\<lambda>q ps. Answer [[(''id'', JNumber 1)], [(''id'', JNumber 2)],
                                         [(''id'', JNumber 3)]] [])],
      configs = Map.empty, executed = []\<rparr> crm ''SELECT id FROM orders'' [] (Some 2)
   = (Inr \<lparr>rows = [[(''id'', JNumber 1)], [(''id'', JNumber 2)]], resultFields = [],
           rowCount = 2, truncated = True\<rparr>,
      \<lparr>pools = [crm \<mapsto> (\<lambda>q ps. Answer [[(''id'', JNumber 1)], [(''id'', JNumber 2)],
                                          [(''id'', JNumber 3)]] [])],
       configs = Map.empty, executed = [(crm, ''SELECT id FROM orders LIMIT 3'')]\<rparr>) \<and>
   (0::int) \<le> 2 \<and>
   int (rowCount \<lparr>rows = [[(''id'', JNumber 1)], [(''id'', JNumber 2)]], resultFields = [],
           rowCount = 2, truncated = True\<rparr>) \<le> 2 \<and>
   (truncated \<lparr>rows = [[(''id'', JNumber 1)], [(''id'', JNumber 2)]], resultFields = [],
           rowCount = 2, truncated = True\<rparr> \<longleftrightarrow>
    length (rows \<lparr>rows = [[(''id'', JNumber 1)], [(''id'', JNumber 2)]], resultFields = [],
           rowCount = 2, truncated = True\<rparr>)
      < length [[(''id'', JNumber 1)], [(''id'', JNumber 2)], [(''id'', JNumber 3)],
                [(''id'', JNumber 4)]])"
proof -
  let ?r1 = "[(''id'', JNumber 1)]" let ?r2 = "[(''id'', JNumber 2)]"
  let ?r3 = "[(''id'', JNumber 3)]" let ?r4 = "[(''id'', JNumber 4)]"
  let ?P = "\<lambda>(q::string) (ps::js_value list). Answer [?r1, ?r2, ?r3] []"
  let ?M = "\<lparr>pools = [crm \<mapsto> ?P], configs = Map.empty, executed = []\<rparr>"
  let ?M' = "\<lparr>pools = [crm \<mapsto> ?P], configs = Map.empty,
              executed = [(crm, ''SELECT id FROM orders LIMIT 3'')]\<rparr>"
  let ?res = "\<lparr>rows = [?r1, ?r2], resultFields = [], rowCount = 2, truncated = True\<rparr>"
  have v: "valid (validate ''SELECT id FROM orders'')" by code_simp
  have q: "addLimitToQuery ''SELECT id FROM orders'' 3 = ''SELECT id FROM orders LIMIT 3''"
    by code_simp
  have run: "executeQuery validate ?M crm ''SELECT id FROM orders'' [] (Some 2) = (Inr ?res, ?M')"
    using v q by (simp add: executeQuery_def executeWithLimit_def Let_def sliceFromStart_def)
  have lim: "(0::int) \<le> 2" by simp
  have src: "[?r1, ?r2, ?r3] = take (nat (2 + 1)) [?r1, ?r2, ?r3, ?r4]" by simp
  have cl: "(case Some (2::int) of None \<Rightarrow> QUERY_DEFAULT | Some l \<Rightarrow> l) = 2" by simp
  note th = executeQuery_result_invariant [OF run cl [symmetric] lim]
  from th have le: "int (rowCount ?res) \<le> 2" by (rule conjunct1 [OF conjunct2])
  from th obtain p rs fs where p: "pools ?M crm = Some p"
    and ans: "p (addLimitToQuery ''SELECT id FROM orders'' (2 + 1)) [] = Answer rs fs"
    and all: "\<forall>src. rs = take (nat (2 + 1)) src \<longrightarrow>
           rows ?res = take (nat 2) src \<and> (truncated ?res \<longleftrightarrow> length (rows ?res) < length src)"
    by blast
  from p have "p = ?P" by simp
  with ans have "rs = [?r1, ?r2, ?r3]" by simp
  with src all have "truncated ?res \<longleftrightarrow> length (rows ?res) < length [?r1, ?r2, ?r3, ?r4]"
    by blast
  with le have inv: "int (rowCount ?res) \<le> 2 \<and>
             (truncated ?res \<longleftrightarrow> length (rows ?res) < length [?r1, ?r2, ?r3, ?r4])"
    by (rule conjI)
  show ?thesis by (intro conjI run lim conjunct1 [OF inv] conjunct2 [OF inv])
qed

text \<open>
  The claim as it was stated fails for a negative limit, which \<open>executeQuery\<close> does not
  screen: with the limit -1 the clause \<^verbatim>\<open>LIMIT 0\<close> is sent, the empty answer counts as
  truncated, and the row count 0 is above the limit.
\<close>

theorem executeQuery_negative_limit_counterexample:
  "executeQuery validate
      \<lparr>pools = [crm \<mapsto> (\<lambda>q ps. Answer [] [])], configs = Map.empty, executed = []\<rparr>
      crm ''SELECT 1'' [] (Some (- 1))
   = (Inr \<lparr>rows = [], resultFields = [], rowCount = 0, truncated = True\<rparr>,
      \<lparr>pools = [crm \<mapsto> (\<lambda>q ps. Answer [] [])], configs = Map.empty,
       executed = [(crm, ''SELECT 1 LIMIT 0'')]\<rparr>) \<and>
   \<not> int (rowCount \<lparr>rows = [], resultFields = [], rowCount = 0, truncated = True\<rparr>) \<le> - 1"
proof -
  have v: "valid (validate ''SELECT 1'')" by code_simp
  have q: "addLimitToQuery ''SELECT 1'' 0 = ''SELECT 1 LIMIT 0''" by code_simp
  show ?thesis
    using v q by (simp add: executeQuery_def executeWithLimit_def Let_def sliceFromStart_def)
qed

end
